theory Spec2Isabelle
  imports Main "HOL-Library.Sublist"
begin

section \<open>Data model\<close>

text \<open>
  Numbers of the TypeScript source are modelled as \<open>int\<close>: page numbers, limits, counts,
  identifiers and millisecond timestamps are integers in every place the hooks use them.
  Optional fields (\<open>number | undefined\<close>) are \<open>option\<close>.
\<close>

text \<open>\<open>PaginationMeta\<close> and \<open>PaginatedResponse<T>\<close> of \<open>shared/types/api.ts\<close>.\<close>

record pagination_meta =
  page :: int
  limit :: int
  total :: int
  totalPages :: int
  hasMore :: bool
  nextPage :: "int option"

record 'a paginated_response =
  data :: "'a list"
  pagination :: pagination_meta

text \<open>
  \<open>CacheEntry<T> | InfiniteCacheEntry<T>\<close> of \<open>useInfiniteApi.ts\<close>: the two interfaces share
  \<open>timestamp\<close> and \<open>expiresAt\<close>; a single entry carries \<open>data\<close>, an infinite one \<open>pages\<close>.
  \<open>'d\<close> is the payload type of single entries, \<open>'a\<close> the item type of pages.
\<close>

datatype ('d, 'a) entry =
    CacheEntry (entry_data: 'd) (timestamp: int) (expiresAt: int)
  | InfiniteCacheEntry (entry_pages: "'a paginated_response list") (timestamp: int) (expiresAt: int)

text \<open>\<open>UniversalCacheManager.isInfiniteEntry\<close>: \<open>'pages' in entry\<close>.\<close>

fun isInfiniteEntry :: "('d, 'a) entry \<Rightarrow> bool" where
  "isInfiniteEntry (CacheEntry d t e) = False"
| "isInfiniteEntry (InfiniteCacheEntry ps t e) = True"

text \<open>\<open>createSingleEntry\<close> and \<open>createInfiniteEntry\<close>; \<open>now\<close> is the value of \<open>Date.now()\<close>.\<close>

definition createSingleEntry :: "int \<Rightarrow> 'd \<Rightarrow> int \<Rightarrow> ('d, 'a) entry" where
  "createSingleEntry now d cacheTtl = CacheEntry d now (now + cacheTtl)"

definition createInfiniteEntry :: "int \<Rightarrow> 'a paginated_response list \<Rightarrow> int \<Rightarrow> ('d, 'a) entry" where
  "createInfiniteEntry now ps cacheTtl = InfiniteCacheEntry ps now (now + cacheTtl)"

section \<open>The durable tier: \<open>localStorage\<close>\<close>

text \<open>
  A value held by \<open>localStorage\<close> is a string. The model keeps what the cache does with it:
  \<^item> \<open>Json e\<close>: the text \<open>JSON.stringify\<close> wrote for the entry \<open>e\<close>, which \<open>JSON.parse\<close>
    turns back into \<open>e\<close> (entries hold numbers, strings, arrays and plain objects only);
  \<^item> \<open>EmptyText\<close>: the empty string, which is falsy in \<open>if (stored)\<close>;
  \<^item> \<open>Corrupt\<close>: any other text this cache did not write, on which \<open>JSON.parse\<close> throws
    (or yields \<open>null\<close>, so that reading \<open>entry.expiresAt\<close> throws).
  Every operation of the storage can throw (storage disabled, quota exceeded); the flags say
  which ones do in the current state.
\<close>

datatype exn = StorageError | SyntaxError

datatype ('d, 'a) stored = Json "('d, 'a) entry" | EmptyText | Corrupt

record ('d, 'a) local_storage =
  items :: "(string \<times> ('d, 'a) stored) list"
  getItem_throws :: bool
  setItem_throws :: bool
  removeItem_throws :: bool
  enumerate_throws :: bool

definition getItem :: "('d, 'a) local_storage \<Rightarrow> string \<Rightarrow> exn + ('d, 'a) stored option" where
  "getItem ls k = (if getItem_throws ls then Inl StorageError else Inr (map_of (items ls) k))"

fun update_item :: "string \<Rightarrow> 'v \<Rightarrow> (string \<times> 'v) list \<Rightarrow> (string \<times> 'v) list" where
  "update_item k v [] = [(k, v)]"
| "update_item k v (p # ps) = (if fst p = k then (k, v) # ps else p # update_item k v ps)"

definition setItem :: "('d, 'a) local_storage \<Rightarrow> string \<Rightarrow> ('d, 'a) stored
    \<Rightarrow> exn + ('d, 'a) local_storage" where
  "setItem ls k v =
     (if setItem_throws ls then Inl StorageError
      else Inr (ls\<lparr>items := update_item k v (items ls)\<rparr>))"

definition removeItem :: "('d, 'a) local_storage \<Rightarrow> string \<Rightarrow> exn + ('d, 'a) local_storage" where
  "removeItem ls k =
     (if removeItem_throws ls then Inl StorageError
      else Inr (ls\<lparr>items := filter (\<lambda>p. fst p \<noteq> k) (items ls)\<rparr>))"

text \<open>\<open>localStorage.length\<close> and \<open>localStorage.key(i)\<close> for \<open>i\<close> from 0: the keys in order.\<close>

definition storage_keys :: "('d, 'a) local_storage \<Rightarrow> exn + string list" where
  "storage_keys ls = (if enumerate_throws ls then Inl StorageError else Inr (map fst (items ls)))"

definition JSON_parse :: "('d, 'a) stored \<Rightarrow> exn + ('d, 'a) entry" where
  "JSON_parse v = (case v of Json e \<Rightarrow> Inr e | EmptyText \<Rightarrow> Inl SyntaxError | Corrupt \<Rightarrow> Inl SyntaxError)"

definition JSON_stringify :: "('d, 'a) entry \<Rightarrow> ('d, 'a) stored" where
  "JSON_stringify e = Json e"

section \<open>\<open>UniversalCacheManager\<close>\<close>

text \<open>
  The cache is the pair of the durable tier and the module's \<open>memoryCache\<close> map. Each method
  returns \<open>Inl\<close> where an exception would leave it and \<open>Inr\<close> with its result and the new state
  otherwise; a \<open>try\<close> block is a function of its own whose \<open>Inl\<close> the method's \<open>catch\<close> handles.
\<close>

record ('d, 'a) cache =
  storage :: "('d, 'a) local_storage"
  memoryCache :: "string \<rightharpoonup> ('d, 'a) entry"

definition CACHE_PREFIX :: string where
  "CACHE_PREFIX = ''api_cache_''"

text \<open>\<open>delete(key)\<close>: the \<open>try\<close> removes the durable item, the \<open>catch\<close> ignores the error.\<close>

definition delete :: "string \<Rightarrow> ('d, 'a) cache \<Rightarrow> exn + ('d, 'a) cache" where
  "delete key c =
     (let ls = (case removeItem (storage c) (CACHE_PREFIX @ key) of
                  Inr ls' \<Rightarrow> ls'
                | Inl e \<Rightarrow> storage c)
      in Inr (c\<lparr>storage := ls, memoryCache := (memoryCache c)(key := None)\<rparr>))"

text \<open>
  The \<open>try\<close> block of \<open>get\<close>. \<open>Inl\<close>: it threw. \<open>Inr (Some (r, c))\<close>: it returned \<open>r\<close>.
  \<open>Inr None\<close>: it ran to its end (\<open>stored\<close> was falsy).
\<close>

definition get_try :: "int \<Rightarrow> string \<Rightarrow> ('d, 'a) cache
    \<Rightarrow> exn + ((('d, 'a) entry option \<times> ('d, 'a) cache) option)" where
  "get_try now key c =
     (case getItem (storage c) (CACHE_PREFIX @ key) of
        Inl e \<Rightarrow> Inl e
      | Inr None \<Rightarrow> Inr None
      | Inr (Some EmptyText) \<Rightarrow> Inr None
      | Inr (Some v) \<Rightarrow>
          (case JSON_parse v of
             Inl e \<Rightarrow> Inl e
           | Inr entry \<Rightarrow>
               if now > expiresAt entry
               then (case delete key c of Inl e \<Rightarrow> Inl e | Inr c' \<Rightarrow> Inr (Some (None, c')))
               else Inr (Some (Some entry, c\<lparr>memoryCache := (memoryCache c)(key \<mapsto> entry)\<rparr>))))"

text \<open>\<open>get(key)\<close>: after the \<open>try\<close>/\<open>catch\<close>, \<open>memoryCache.get(key) || null\<close>.\<close>

definition get :: "int \<Rightarrow> string \<Rightarrow> ('d, 'a) cache
    \<Rightarrow> exn + (('d, 'a) entry option \<times> ('d, 'a) cache)" where
  "get now key c =
     (case get_try now key c of
        Inr (Some r) \<Rightarrow> Inr r
      | Inr None \<Rightarrow> Inr (memoryCache c key, c)
      | Inl e \<Rightarrow> Inr (memoryCache c key, c))"

text \<open>\<open>set(key, entry)\<close>: the durable write is tried, the memory write always happens.\<close>

definition set_entry :: "string \<Rightarrow> ('d, 'a) entry \<Rightarrow> ('d, 'a) cache \<Rightarrow> exn + ('d, 'a) cache" where
  "set_entry key entry c =
     (let ls = (case setItem (storage c) (CACHE_PREFIX @ key) (JSON_stringify entry) of
                  Inr ls' \<Rightarrow> ls'
                | Inl e \<Rightarrow> storage c)
      in Inr (c\<lparr>storage := ls, memoryCache := (memoryCache c)(key \<mapsto> entry)\<rparr>))"

text \<open>
  \<open>keysToRemove.forEach(key => localStorage.removeItem(key))\<close>. A throw leaves the loop; the
  storage it leaves behind is carried with the exception.
\<close>

fun removeItems :: "('d, 'a) local_storage \<Rightarrow> string list
    \<Rightarrow> (exn \<times> ('d, 'a) local_storage) + ('d, 'a) local_storage" where
  "removeItems ls [] = Inr ls"
| "removeItems ls (k # ks) =
     (case removeItem ls k of Inl e \<Rightarrow> Inl (e, ls) | Inr ls' \<Rightarrow> removeItems ls' ks)"

text \<open>The \<open>try\<close> block of \<open>clear\<close>: collect the keys with the prefix, then remove them.\<close>

definition clear_try :: "('d, 'a) local_storage
    \<Rightarrow> (exn \<times> ('d, 'a) local_storage) + ('d, 'a) local_storage" where
  "clear_try ls =
     (case storage_keys ls of
        Inl e \<Rightarrow> Inl (e, ls)
      | Inr ks \<Rightarrow> removeItems ls (filter (prefix CACHE_PREFIX) ks))"

definition clear :: "('d, 'a) cache \<Rightarrow> exn + ('d, 'a) cache" where
  "clear c =
     (let ls = (case clear_try (storage c) of Inr ls' \<Rightarrow> ls' | Inl (e, ls') \<Rightarrow> ls')
      in Inr (c\<lparr>storage := ls, memoryCache := Map.empty\<rparr>))"

section \<open>Numbers in template literals\<close>

text \<open>
  \<open>`${n}`\<close> and \<open>n.toString()\<close> for an integer \<open>n\<close>: its decimal digits, with a leading
  \<open>-\<close> when it is negative.
\<close>

definition digit_char :: "nat \<Rightarrow> char" where
  "digit_char d =
     (if d = 0 then CHR ''0'' else if d = 1 then CHR ''1'' else if d = 2 then CHR ''2''
      else if d = 3 then CHR ''3'' else if d = 4 then CHR ''4'' else if d = 5 then CHR ''5''
      else if d = 6 then CHR ''6'' else if d = 7 then CHR ''7'' else if d = 8 then CHR ''8''
      else CHR ''9'')"

fun digits :: "nat \<Rightarrow> string" where
  "digits n = (if n < 10 then [digit_char n] else digits (n div 10) @ [digit_char (n mod 10)])"

declare digits.simps [simp del]

definition toString :: "int \<Rightarrow> string" where
  "toString i = (if i < 0 then CHR ''-'' # digits (nat (- i)) else digits (nat i))"

section \<open>Cache keys and cross-filter invalidation\<close>

text \<open>
  \<open>cacheKey\<close> of \<open>useInfinitePosts\<close>:
  \<open>`posts_infinite_limit_${limit}_user_${userId || 'all'}`\<close>. The operand of \<open>||\<close> is falsy
  when \<open>userId\<close> is \<open>undefined\<close> and also when it is \<open>0\<close>.
\<close>

definition cacheKey :: "int \<Rightarrow> int option \<Rightarrow> string" where
  "cacheKey lim uid =
     ''posts_infinite_limit_'' @ toString lim @ ''_user_'' @
       (case uid of
          None \<Rightarrow> ''all''
        | Some u \<Rightarrow> if u = 0 then ''all'' else toString u)"

text \<open>The keys \<open>useFiltersCacheManager\<close> builds.\<close>

definition allUsersKey :: "int \<Rightarrow> string" where
  "allUsersKey lim = ''posts_infinite_limit_'' @ toString lim @ ''_user_all''"

definition userCacheKey :: "int \<Rightarrow> int \<Rightarrow> string" where
  "userCacheKey lim uid = ''posts_infinite_limit_'' @ toString lim @ ''_user_'' @ toString uid"

text \<open>\<open>for (let userId = 1; userId <= 10; userId++) UniversalCacheManager.delete(userCacheKey)\<close>,
  entered with the current value of \<open>userId\<close>.\<close>

function clearUserCaches :: "int \<Rightarrow> int \<Rightarrow> ('d, 'a) cache \<Rightarrow> exn + ('d, 'a) cache" where
  "clearUserCaches lim uid c =
     (if uid \<le> 10
      then (case delete (userCacheKey lim uid) c of
              Inl e \<Rightarrow> Inl e
            | Inr c' \<Rightarrow> clearUserCaches lim (uid + 1) c')
      else Inr c)"
  by pat_completeness auto
termination
  by (relation "measure (\<lambda>(lim, uid, c). nat (11 - uid))") auto

declare clearUserCaches.simps [simp del]

text \<open>
  The effect of \<open>useFiltersCacheManager\<close>, run by React when \<open>selectedUserId\<close> or \<open>limit\<close>
  changes (and on mount). It sees the new selection only.
\<close>

definition filtersCacheEffect :: "int option \<Rightarrow> int \<Rightarrow> ('d, 'a) cache \<Rightarrow> exn + ('d, 'a) cache" where
  "filtersCacheEffect selectedUserId lim c =
     (case selectedUserId of
        Some u \<Rightarrow> delete (allUsersKey lim) c
      | None \<Rightarrow> clearUserCaches lim 1 c)"

section \<open>The posts API: \<open>shared/api/posts.ts\<close>\<close>

text \<open>
  A post as it arrives in the parsed JSON body: \<open>Post\<close> is a compile-time annotation only, so
  each field may be missing (\<open>None\<close>). A number is falsy when it is \<open>0\<close>, a string when it is
  empty, a missing field always.
\<close>

record json_post =
  userId :: "int option"
  postId :: "int option"
  title :: "string option"
  body :: "string option"

definition falsy_number :: "int option \<Rightarrow> bool" where
  "falsy_number v = (case v of None \<Rightarrow> True | Some n \<Rightarrow> n = 0)"

definition falsy_string :: "string option \<Rightarrow> bool" where
  "falsy_string v = (case v of None \<Rightarrow> True | Some s \<Rightarrow> s = [])"

text \<open>The test of the validation loop:
  \<open>!post.id || !post.userId || !post.title || !post.body\<close>.\<close>

definition invalid_post :: "json_post \<Rightarrow> bool" where
  "invalid_post p \<longleftrightarrow>
     falsy_number (postId p) \<or> falsy_number (userId p) \<or> falsy_string (title p) \<or> falsy_string (body p)"

text \<open>What a \<open>try\<close> block can throw: an \<open>Error\<close> with its message, an \<open>Error\<close> whose name is
  \<open>AbortError\<close> (the timeout's \<open>controller.abort()\<close>), or a value that is no \<open>Error\<close>.\<close>

datatype thrown = Error string | AbortError string | NonError

text \<open>The body \<open>response.json()\<close> yields: a parse failure, a value that is no array, or an
  array of posts.\<close>

datatype json_body = BodySyntaxError string | NotArray | Posts "json_post list"

text \<open>
  An HTTP response: \<open>x_total_count\<close> is \<open>None\<close> when \<open>headers.get('x-total-count')\<close> is
  \<open>null\<close> or empty, and \<open>Some n\<close> when \<open>parseInt\<close> reads \<open>n\<close> from it.
\<close>

record http_response =
  ok :: bool
  status :: int
  x_total_count :: "int option"
  json :: json_body

datatype fetch_result = Responded http_response | Failed thrown

text \<open>The query string as \<open>URLSearchParams\<close> holds it: names with their (numeric) values, in
  the order they were appended. The server is a function of the query.\<close>

type_synonym query = "(string \<times> int) list"

record pagination_params =
  param_page :: "int option"
  param_limit :: "int option"
  param_start :: "int option"
  param_userId :: "int option"

definition build_query :: "int \<Rightarrow> int \<Rightarrow> int option \<Rightarrow> int option \<Rightarrow> query" where
  "build_query pg lim start uid =
     (case start of
        Some st \<Rightarrow> [(''_start'', st), (''_limit'', lim)]
      | None \<Rightarrow> [(''_page'', pg), (''_limit'', lim)])
     @ (case uid of Some u \<Rightarrow> [(''userId'', u)] | None \<Rightarrow> [])"

text \<open>\<open>posts.forEach((post, index) => { if (...) throw ... })\<close> from index \<open>i\<close> on.\<close>

fun validate_posts :: "nat \<Rightarrow> json_post list \<Rightarrow> thrown + unit" where
  "validate_posts i [] = Inr ()"
| "validate_posts i (p # ps) =
     (if invalid_post p
      then Inl (Error (''Invalid post structure at index '' @ toString (int i)))
      else validate_posts (Suc i) ps)"

text \<open>\<open>Math.ceil(totalCount / limit)\<close> on integers, for \<open>limit \<noteq> 0\<close>.\<close>

definition ceil_div :: "int \<Rightarrow> int \<Rightarrow> int" where
  "ceil_div a b = - ((- a) div b)"

text \<open>
  The \<open>try\<close> block of \<open>fetchPaginatedPosts\<close>, with the defaults \<open>page = 1\<close>, \<open>limit = 10\<close>
  applied. It covers \<open>limit \<noteq> 0\<close>: with \<open>limit = 0\<close> the source divides by zero and obtains
  \<open>Infinity\<close> or \<open>NaN\<close>, which \<open>int\<close> does not have.
\<close>

definition fetchPaginatedPosts_try :: "(query \<Rightarrow> fetch_result) \<Rightarrow> pagination_params
    \<Rightarrow> thrown + json_post paginated_response" where
  "fetchPaginatedPosts_try server params =
     (let pg = (case param_page params of Some p \<Rightarrow> p | None \<Rightarrow> 1);
          lim = (case param_limit params of Some l \<Rightarrow> l | None \<Rightarrow> 10);
          start = param_start params;
          uid = param_userId params
      in case server (build_query pg lim start uid) of
           Failed t \<Rightarrow> Inl t
         | Responded response \<Rightarrow>
             if \<not> ok response
             then Inl (Error (''HTTP error! status: '' @ toString (status response)))
             else (case json response of
                 BodySyntaxError m \<Rightarrow> Inl (Error m)
               | parsed \<Rightarrow>
                   let totalCount0 = (case x_total_count response of Some n \<Rightarrow> n | None \<Rightarrow> 100);
                       totalCount = (if uid \<noteq> None \<and> x_total_count response = None
                                     then 10 else totalCount0);
                       tp = ceil_div totalCount lim;
                       currentPage = (case start of Some st \<Rightarrow> st div lim + 1 | None \<Rightarrow> pg);
                       more = (currentPage < tp);
                       next = (if more then Some (currentPage + 1) else None)
                   in (case parsed of
                         Posts posts \<Rightarrow>
                           (case validate_posts 0 posts of
                              Inl t \<Rightarrow> Inl t
                            | Inr u \<Rightarrow>
                                Inr \<lparr>data = posts,
                                     pagination = \<lparr>page = currentPage, limit = lim,
                                       total = totalCount, totalPages = tp, hasMore = more,
                                       nextPage = next\<rparr>\<rparr>)
                       | other \<Rightarrow>
                           Inl (Error ''Invalid response format: expected array of posts''))))"

text \<open>The \<open>catch\<close> block: every failure leaves as an \<open>Error\<close> with a rewritten message.\<close>

definition rethrow :: "string \<Rightarrow> string \<Rightarrow> int \<Rightarrow> thrown \<Rightarrow> string" where
  "rethrow failed unknown timeout t =
     (case t of
        AbortError m \<Rightarrow> ''Request timeout after '' @ toString timeout @ ''ms''
      | Error m \<Rightarrow> failed @ m
      | NonError \<Rightarrow> unknown)"

definition DEFAULT_TIMEOUT :: int where
  "DEFAULT_TIMEOUT = 10000"

text \<open>\<open>fetchPaginatedPosts(params)\<close> with the default options: \<open>Inl m\<close> is the message of the
  \<open>Error\<close> it throws.\<close>

definition fetchPaginatedPosts :: "(query \<Rightarrow> fetch_result) \<Rightarrow> pagination_params
    \<Rightarrow> string + json_post paginated_response" where
  "fetchPaginatedPosts server params =
     (case fetchPaginatedPosts_try server params of
        Inr r \<Rightarrow> Inr r
      | Inl t \<Rightarrow> Inl (rethrow ''Failed to fetch paginated posts: ''
                        ''Unknown error occurred while fetching paginated posts'' DEFAULT_TIMEOUT t))"

text \<open>\<open>fetchPosts()\<close>: the request has no query.\<close>

definition fetchPosts_try :: "(query \<Rightarrow> fetch_result) \<Rightarrow> thrown + json_post list" where
  "fetchPosts_try server =
     (case server [] of
        Failed t \<Rightarrow> Inl t
      | Responded response \<Rightarrow>
          if \<not> ok response
          then Inl (Error (''HTTP error! status: '' @ toString (status response)))
          else (case json response of
                  BodySyntaxError m \<Rightarrow> Inl (Error m)
                | NotArray \<Rightarrow> Inl (Error ''Invalid response format: expected array of posts'')
                | Posts posts \<Rightarrow>
                    (case validate_posts 0 posts of
                       Inl t \<Rightarrow> Inl t
                     | Inr u \<Rightarrow> Inr posts)))"

definition fetchPosts :: "(query \<Rightarrow> fetch_result) \<Rightarrow> string + json_post list" where
  "fetchPosts server =
     (case fetchPosts_try server of
        Inr r \<Rightarrow> Inr r
      | Inl t \<Rightarrow> Inl (rethrow ''Failed to fetch posts: ''
                        ''Unknown error occurred while fetching posts'' DEFAULT_TIMEOUT t))"

section \<open>Request controllers: \<open>ApiUtils\<close>\<close>

text \<open>
  An \<open>AbortController\<close> is identified by the number of controllers created before it. The
  state of a hook instance records the controller its \<open>abortControllerRef\<close> holds and the
  set of controllers whose signal is aborted.
\<close>

text \<open>A settled fetcher promise: its value, or what it was rejected with.\<close>

datatype 'r outcome = Resolved 'r | Rejected thrown

text \<open>\<open>err instanceof Error ? err.message : 'Unknown error occurred'\<close>.\<close>

definition errorMessage :: "thrown \<Rightarrow> string" where
  "errorMessage t = (case t of Error m \<Rightarrow> m | AbortError m \<Rightarrow> m | NonError \<Rightarrow> ''Unknown error occurred'')"

text \<open>An exception of the cache as the value a \<open>catch\<close> clause of a hook receives.\<close>

definition thrown_of :: "exn \<Rightarrow> thrown" where
  "thrown_of e = (case e of StorageError \<Rightarrow> Error ''StorageError'' | SyntaxError \<Rightarrow> Error ''SyntaxError'')"

section \<open>The paginated controller: \<open>useInfiniteApi\<close>\<close>

record infinite_config =
  cfg_cacheKey :: string
  cfg_limit :: int
  cacheTtl :: int
  enabled :: bool
  persistentCache :: bool

text \<open>
  The state of one hook instance together with the process-wide cache: the React state
  (\<open>pages\<close>, \<open>loading\<close>, \<open>loadingMore\<close>, \<open>error\<close>, \<open>hasMore\<close>), the refs, the log of the
  calls \<open>fetcher({page, limit})\<close> made so far, and the cache.
\<close>

record ('d, 'a) infinite_state =
  pages :: "'a paginated_response list"
  loading :: bool
  loadingMore :: bool
  error :: "string option"
  hasMoreState :: bool
  abortControllerRef :: "nat option"
  aborted :: "nat set"
  controllers :: nat
  currentPageRef :: int
  retryCountRef :: nat
  issued :: "(int \<times> int) list"
  cache_store :: "('d, 'a) cache"

definition maxRetries :: nat where
  "maxRetries = 3"

text \<open>\<open>ApiUtils.createRequestController\<close>: abort the controller in the ref, put a new one there.\<close>

definition createRequestController :: "('d, 'a) infinite_state \<Rightarrow> nat \<times> ('d, 'a) infinite_state" where
  "createRequestController s =
     (controllers s,
      s\<lparr>aborted := (case abortControllerRef s of
                       Some c \<Rightarrow> insert c (aborted s)
                     | None \<Rightarrow> aborted s),
        abortControllerRef := Some (controllers s),
        controllers := Suc (controllers s)\<rparr>)"

text \<open>\<open>ApiUtils.cleanupRequest\<close>.\<close>

definition cleanupRequest :: "nat \<Rightarrow> ('d, 'a) infinite_state \<Rightarrow> ('d, 'a) infinite_state" where
  "cleanupRequest c s = (if abortControllerRef s = Some c then s\<lparr>abortControllerRef := None\<rparr> else s)"

text \<open>\<open>getInitialData\<close>: the cached pages, read through the cache manager or from the
  memory map.\<close>

definition getInitialData :: "infinite_config \<Rightarrow> int \<Rightarrow> ('d, 'a) cache
    \<Rightarrow> 'a paginated_response list \<times> ('d, 'a) cache" where
  "getInitialData cfg now c =
     (if \<not> enabled cfg then ([], c)
      else case (if persistentCache cfg then get now (cfg_cacheKey cfg) c
                 else Inr (memoryCache c (cfg_cacheKey cfg), c)) of
             Inl e \<Rightarrow> ([], c)
           | Inr (None, c') \<Rightarrow> ([], c')
           | Inr (Some entry, c') \<Rightarrow>
               (if isInfiniteEntry entry then (entry_pages entry, c') else ([], c')))"

text \<open>The state of a freshly mounted hook: \<open>getInitialData\<close> is called for \<open>pages\<close>, for
  \<open>hasMore\<close> and for the initial page number.\<close>

definition useInfiniteApi_init :: "infinite_config \<Rightarrow> int \<Rightarrow> ('d, 'a) cache \<Rightarrow> ('d, 'a) infinite_state" where
  "useInfiniteApi_init cfg now c =
     (case getInitialData cfg now c of (ps1, c1) \<Rightarrow>
      case getInitialData cfg now c1 of (ps2, c2) \<Rightarrow>
      case getInitialData cfg now c2 of (ps3, c3) \<Rightarrow>
        \<lparr>pages = ps1, loading = False, loadingMore = False, error = None,
         hasMoreState = (if ps2 \<noteq> [] then hasMore (pagination (last ps2)) else True),
         abortControllerRef = None, aborted = {}, controllers = 0,
         currentPageRef = (if ps3 \<noteq> [] then page (pagination (last ps3)) else 1),
         retryCountRef = 0, issued = [], cache_store = c3\<rparr>)"

text \<open>\<open>setCachedPages\<close>.\<close>

definition setCachedPages :: "infinite_config \<Rightarrow> int \<Rightarrow> 'a paginated_response list
    \<Rightarrow> ('d, 'a) cache \<Rightarrow> exn + ('d, 'a) cache" where
  "setCachedPages cfg now newPages c =
     (let entry = createInfiniteEntry now newPages (cacheTtl cfg)
      in if persistentCache cfg then set_entry (cfg_cacheKey cfg) entry c
         else Inr (c\<lparr>memoryCache := (memoryCache c)(cfg_cacheKey cfg \<mapsto> entry)\<rparr>))"

text \<open>
  \<open>fetchPage(page, showLoading, isRefetch)\<close> up to its \<open>await\<close>: a new controller, the loading
  flags, and the call of the fetcher.
\<close>

definition fetchPage_start :: "infinite_config \<Rightarrow> int \<Rightarrow> bool \<Rightarrow> bool \<Rightarrow> ('d, 'a) infinite_state
    \<Rightarrow> nat \<times> ('d, 'a) infinite_state" where
  "fetchPage_start cfg pg showLoading isRefetch s =
     (case createRequestController s of (c, s1) \<Rightarrow>
        let s2 = (if showLoading
                  then (if pg = 1 then s1\<lparr>loading := True\<rparr> else s1\<lparr>loadingMore := True\<rparr>)
                         \<lparr>error := None\<rparr>
                  else s1)
        in (c, s2\<lparr>issued := issued s2 @ [(pg, cfg_limit cfg)]\<rparr>))"

text \<open>The \<open>catch\<close> block shared by \<open>fetchPage\<close> and the effect's \<open>fetchFirstPage\<close>.\<close>

definition fetch_catch :: "nat \<Rightarrow> thrown \<Rightarrow> ('d, 'a) infinite_state \<Rightarrow> ('d, 'a) infinite_state" where
  "fetch_catch c t s =
     (if c \<in> aborted s then s
      else s\<lparr>retryCountRef := retryCountRef s + 1, error := Some (errorMessage t)\<rparr>)"

text \<open>The \<open>finally\<close> block of \<open>fetchPage\<close>.\<close>

definition fetchPage_finally :: "nat \<Rightarrow> bool \<Rightarrow> ('d, 'a) infinite_state \<Rightarrow> ('d, 'a) infinite_state" where
  "fetchPage_finally c showLoading s =
     cleanupRequest c
       (if c \<notin> aborted s \<and> showLoading then s\<lparr>loading := False, loadingMore := False\<rparr> else s)"

text \<open>
  \<open>fetchPage\<close> after its \<open>await\<close>, for the controller \<open>c\<close> it created: the fetcher's promise
  has settled with \<open>out\<close> at time \<open>now\<close>. The cache write sits in the updater of \<open>setPages\<close>;
  should it throw, the model hands the exception to the \<open>catch\<close> block.
\<close>

definition fetchPage_settle :: "infinite_config \<Rightarrow> int \<Rightarrow> nat \<Rightarrow> int \<Rightarrow> bool \<Rightarrow> bool
    \<Rightarrow> 'a paginated_response outcome \<Rightarrow> ('d, 'a) infinite_state \<Rightarrow> ('d, 'a) infinite_state" where
  "fetchPage_settle cfg now c pg showLoading isRefetch out s =
     fetchPage_finally c showLoading
       (case out of
          Rejected t \<Rightarrow> fetch_catch c t s
        | Resolved result \<Rightarrow>
            if c \<in> aborted s then s
            else let s1 = s\<lparr>retryCountRef := 0\<rparr>;
                     newPages = (if pg = 1 \<and> (isRefetch \<or> pages s1 = [])
                                 then [result] else pages s1 @ [result])
                 in (case setCachedPages cfg now newPages (cache_store s1) of
                       Inl e \<Rightarrow> fetch_catch c (thrown_of e) s1
                     | Inr c' \<Rightarrow>
                         s1\<lparr>pages := newPages, cache_store := c',
                            hasMoreState := hasMore (pagination result),
                            error := None,
                            currentPageRef := page (pagination result)\<rparr>))"

text \<open>\<open>fetchFirstPage\<close> of the initial-load effect, up to its \<open>await\<close>.\<close>

definition fetchFirstPage_start :: "infinite_config \<Rightarrow> ('d, 'a) infinite_state
    \<Rightarrow> nat \<times> ('d, 'a) infinite_state" where
  "fetchFirstPage_start cfg s =
     (case createRequestController s of (c, s1) \<Rightarrow>
        (c, s1\<lparr>loading := True, error := None, issued := issued s1 @ [(1, cfg_limit cfg)]\<rparr>))"

text \<open>\<open>fetchFirstPage\<close> after its \<open>await\<close>.\<close>

definition fetchFirstPage_settle :: "infinite_config \<Rightarrow> int \<Rightarrow> nat
    \<Rightarrow> 'a paginated_response outcome \<Rightarrow> ('d, 'a) infinite_state \<Rightarrow> ('d, 'a) infinite_state" where
  "fetchFirstPage_settle cfg now c out s =
     (let s' = (case out of
                  Rejected t \<Rightarrow> fetch_catch c t s
                | Resolved result \<Rightarrow>
                    if c \<in> aborted s then s
                    else let s1 = s\<lparr>retryCountRef := 0, pages := [result],
                                    hasMoreState := hasMore (pagination result),
                                    error := None,
                                    currentPageRef := page (pagination result)\<rparr>
                         in (case setCachedPages cfg now [result] (cache_store s1) of
                               Inl e \<Rightarrow> fetch_catch c (thrown_of e) s1
                             | Inr c' \<Rightarrow> s1\<lparr>cache_store := c'\<rparr>))
      in cleanupRequest c (if c \<notin> aborted s' then s'\<lparr>loading := False\<rparr> else s'))"

text \<open>
  The body of the initial-load effect: it returns the controller of the request it started,
  if it started one.
\<close>

definition initialLoadEffect :: "infinite_config \<Rightarrow> ('d, 'a) infinite_state
    \<Rightarrow> nat option \<times> ('d, 'a) infinite_state" where
  "initialLoadEffect cfg s =
     (if \<not> enabled cfg then (None, s)
      else if pages s \<noteq> [] then (None, s)
      else if retryCountRef s \<ge> maxRetries then (None, s)
      else case fetchFirstPage_start cfg s of (c, s') \<Rightarrow> (Some c, s'))"

text \<open>The cleanup function the effect returns.\<close>

definition effectCleanup :: "('d, 'a) infinite_state \<Rightarrow> ('d, 'a) infinite_state" where
  "effectCleanup s =
     (case abortControllerRef s of
        Some c \<Rightarrow> s\<lparr>aborted := insert c (aborted s), abortControllerRef := None\<rparr>
      | None \<Rightarrow> s)"

text \<open>\<open>loadMore()\<close>, called with the flags of the current state.\<close>

definition loadMore :: "infinite_config \<Rightarrow> ('d, 'a) infinite_state
    \<Rightarrow> nat option \<times> ('d, 'a) infinite_state" where
  "loadMore cfg s =
     (if \<not> hasMoreState s \<or> loadingMore s \<or> loading s then (None, s)
      else let nextPg = currentPageRef s + 1
           in case fetchPage_start cfg nextPg True False s of (c, s') \<Rightarrow> (Some c, s'))"

text \<open>\<open>refetch()\<close>.\<close>

definition refetch :: "infinite_config \<Rightarrow> ('d, 'a) infinite_state \<Rightarrow> nat \<times> ('d, 'a) infinite_state" where
  "refetch cfg s =
     fetchPage_start cfg 1 True True
       (s\<lparr>retryCountRef := 0, currentPageRef := 1, pages := [], hasMoreState := True,
          error := None\<rparr>)"

text \<open>\<open>invalidateCache()\<close>.\<close>

definition invalidateCache :: "infinite_config \<Rightarrow> ('d, 'a) infinite_state
    \<Rightarrow> exn + (nat \<times> ('d, 'a) infinite_state)" where
  "invalidateCache cfg s =
     (case (if persistentCache cfg then delete (cfg_cacheKey cfg) (cache_store s)
            else Inr ((cache_store s)\<lparr>memoryCache := (memoryCache (cache_store s))(cfg_cacheKey cfg := None)\<rparr>)) of
        Inl e \<Rightarrow> Inl e
      | Inr c' \<Rightarrow> Inr (refetch cfg (s\<lparr>cache_store := c'\<rparr>)))"

text \<open>
  What can happen to a mounted instance, in any order: React runs the effect or its
  cleanup, the caller invokes one of the returned functions, or the promise a request
  awaits settles. A settlement names the controller of its request and the arguments its
  \<open>fetchPage\<close> call was made with.
\<close>

datatype 'a event =
    EffectRun
  | EffectCleanup
  | LoadMore
  | Refetch
  | InvalidateCache
  | SettlePage nat int bool bool "'a paginated_response outcome" int
  | SettleFirstPage nat "'a paginated_response outcome" int

fun step :: "infinite_config \<Rightarrow> 'a event \<Rightarrow> ('d, 'a) infinite_state \<Rightarrow> ('d, 'a) infinite_state" where
  "step cfg EffectRun s = snd (initialLoadEffect cfg s)"
| "step cfg EffectCleanup s = effectCleanup s"
| "step cfg LoadMore s = snd (loadMore cfg s)"
| "step cfg Refetch s = snd (refetch cfg s)"
| "step cfg InvalidateCache s = (case invalidateCache cfg s of Inl e \<Rightarrow> s | Inr r \<Rightarrow> snd r)"
| "step cfg (SettlePage c pg showLoading isRefetch out now) s =
     fetchPage_settle cfg now c pg showLoading isRefetch out s"
| "step cfg (SettleFirstPage c out now) s = fetchFirstPage_settle cfg now c out s"

fun run :: "infinite_config \<Rightarrow> 'a event list \<Rightarrow> ('d, 'a) infinite_state \<Rightarrow> ('d, 'a) infinite_state" where
  "run cfg [] s = s"
| "run cfg (ev # evs) s = run cfg evs (step cfg ev s)"

text \<open>Whether an event is the settlement of the request of controller \<open>c\<close>.\<close>

fun settles :: "nat \<Rightarrow> 'a event \<Rightarrow> bool" where
  "settles c (SettlePage c' pg showLoading isRefetch out now) = (c' = c)"
| "settles c (SettleFirstPage c' out now) = (c' = c)"
| "settles c ev = False"


text \<open>The flattened item list the hook returns:
  \<open>pages.reduce((acc, page) => [...acc, ...page.data], [])\<close>.\<close>

definition flatData :: "('d, 'a) infinite_state \<Rightarrow> 'a list" where
  "flatData s = foldl (\<lambda>acc pg. acc @ data pg) [] (pages s)"

text \<open>Controllers are numbered in the order of their creation: those aborted or in the ref
  were created before.\<close>

definition controllers_wf :: "('d, 'a) infinite_state \<Rightarrow> bool" where
  "controllers_wf s \<longleftrightarrow>
     (\<forall>c \<in> aborted s. c < controllers s) \<and>
     (case abortControllerRef s of None \<Rightarrow> True | Some c \<Rightarrow> c < controllers s \<and> c \<notin> aborted s)"

section \<open>The posts feed: \<open>useInfinitePosts\<close> over a paging server\<close>

text \<open>\<open>postsFetcher\<close>: the fetcher \<open>useInfinitePosts\<close> hands to \<open>useInfiniteApi\<close>. It adds the
  user filter to the parameters and calls \<open>fetchPaginatedPosts\<close>; a thrown \<open>Error\<close> rejects
  the promise.\<close>

definition postsFetcher :: "(query \<Rightarrow> fetch_result) \<Rightarrow> int option \<Rightarrow> int \<times> int
    \<Rightarrow> json_post paginated_response outcome" where
  "postsFetcher server uid pl =
     (case fetchPaginatedPosts server
             \<lparr>param_page = Some (fst pl), param_limit = Some (snd pl), param_start = None,
              param_userId = uid\<rparr> of
        Inl m \<Rightarrow> Rejected (Error m)
      | Inr r \<Rightarrow> Resolved r)"

text \<open>The configuration \<open>useInfinitePosts\<close> builds for \<open>useInfiniteApi\<close>.\<close>

definition postsConfig :: "int \<Rightarrow> bool \<Rightarrow> int option \<Rightarrow> infinite_config" where
  "postsConfig lim en uid =
     \<lparr>cfg_cacheKey = cacheKey lim uid, cfg_limit = lim, cacheTtl = 5 * 60 * 1000,
      enabled = en, persistentCache = True\<rparr>"

text \<open>
  The remote collaborator of the pagination scenario: a server that holds the posts \<open>all\<close>,
  answers a \<open>_page\<close>/\<open>_limit\<close> query with that page of them and reports their number in
  \<open>x-total-count\<close>.
\<close>

definition paging_server :: "json_post list \<Rightarrow> query \<Rightarrow> fetch_result" where
  "paging_server all q =
     (case (map_of q ''_page'', map_of q ''_limit'') of
        (Some p, Some l) \<Rightarrow>
          Responded \<lparr>ok = True, status = 200, x_total_count = Some (int (length all)),
                     json = Posts (take (nat l) (drop (nat ((p - 1) * l)) all))\<rparr>
      | other \<Rightarrow> Responded \<lparr>ok = False, status = 400, x_total_count = None, json = NotArray\<rparr>)"

text \<open>Mounting the hook: the initial state, the effect, and the settlement of the request
  the effect issued, answered by the server.\<close>

definition mount_settled :: "infinite_config \<Rightarrow> (query \<Rightarrow> fetch_result) \<Rightarrow> int option
    \<Rightarrow> int \<Rightarrow> ('d, json_post) cache \<Rightarrow> ('d, json_post) infinite_state" where
  "mount_settled cfg server uid now c =
     (case initialLoadEffect cfg (useInfiniteApi_init cfg now c) of
        (None, s) \<Rightarrow> s
      | (Some ctl, s) \<Rightarrow>
          fetchFirstPage_settle cfg now ctl (postsFetcher server uid (last (issued s))) s)"

text \<open>\<open>loadMore()\<close> and the settlement of the request it issued, if it issued one.\<close>

definition loadMore_settled :: "infinite_config \<Rightarrow> (query \<Rightarrow> fetch_result) \<Rightarrow> int option
    \<Rightarrow> int \<Rightarrow> ('d, json_post) infinite_state \<Rightarrow> ('d, json_post) infinite_state" where
  "loadMore_settled cfg server uid now s0 =
     (case loadMore cfg s0 of
        (None, s) \<Rightarrow> s
      | (Some ctl, s) \<Rightarrow>
          fetchPage_settle cfg now ctl (fst (last (issued s))) True False
            (postsFetcher server uid (last (issued s))) s)"

text \<open>A durable tier that holds nothing and works, and the empty cache over it.\<close>

definition empty_storage :: "('d, 'a) local_storage" where
  "empty_storage = \<lparr>items = [], getItem_throws = False, setItem_throws = False,
                    removeItem_throws = False, enumerate_throws = False\<rparr>"

definition empty_cache :: "('d, 'a) cache" where
  "empty_cache = \<lparr>storage = empty_storage, memoryCache = Map.empty\<rparr>"

text \<open>A durable tier that is unavailable: every operation on it throws.\<close>

definition unavailable_storage :: "('d, 'a) local_storage" where
  "unavailable_storage = \<lparr>items = [], getItem_throws = True, setItem_throws = True,
                          removeItem_throws = True, enumerate_throws = True\<rparr>"

section \<open>The single-resource controller: \<open>useApi\<close>\<close>

record api_config =
  api_cacheKey :: string
  api_cacheTtl :: int
  api_enabled :: bool
  api_persistentCache :: bool
  refetchOnFocus :: bool

text \<open>
  The state of one \<open>useApi\<close> instance: its React state, its controller ref, the number of
  fetcher calls made, the cache of \<open>UniversalCacheManager\<close>, and the \<open>memoryCache\<close> map of
  the \<open>useApi\<close> module, which \<open>ApiUtils\<close> uses when \<open>persistentCache\<close> is off. The data
  \<open>None\<close> is \<open>null\<close>; \<open>Some d\<close> is the payload \<open>d\<close>, which may itself be falsy.
\<close>

record ('d, 'a) api_state =
  api_data :: "'d option"
  api_loading :: bool
  api_error :: "string option"
  api_abortControllerRef :: "nat option"
  api_aborted :: "nat set"
  api_controllers :: nat
  api_issued :: nat
  api_cache_store :: "('d, 'a) cache"
  api_memoryCache :: "string \<rightharpoonup> ('d, 'a) entry"

text \<open>\<open>ApiUtils.getCachedData\<close>.\<close>

definition getCachedData :: "string \<Rightarrow> bool \<Rightarrow> int \<Rightarrow> ('d, 'a) cache \<Rightarrow> (string \<rightharpoonup> ('d, 'a) entry)
    \<Rightarrow> 'd option \<times> ('d, 'a) cache" where
  "getCachedData key persistent now c m =
     (case (if persistent then get now key c else Inr (m key, c)) of
        Inl e \<Rightarrow> (None, c)
      | Inr (None, c') \<Rightarrow> (None, c')
      | Inr (Some entry, c') \<Rightarrow>
          (if \<not> isInfiniteEntry entry then (Some (entry_data entry), c') else (None, c')))"

text \<open>\<open>ApiUtils.setCachedData\<close>.\<close>

definition setCachedData :: "string \<Rightarrow> 'd \<Rightarrow> int \<Rightarrow> bool \<Rightarrow> int \<Rightarrow> ('d, 'a) cache
    \<Rightarrow> (string \<rightharpoonup> ('d, 'a) entry) \<Rightarrow> exn + (('d, 'a) cache \<times> (string \<rightharpoonup> ('d, 'a) entry))" where
  "setCachedData key d ttl persistent now c m =
     (let entry = createSingleEntry now d ttl
      in if persistent
         then (case set_entry key entry c of Inl e \<Rightarrow> Inl e | Inr c' \<Rightarrow> Inr (c', m))
         else Inr (c, m(key \<mapsto> entry)))"

text \<open>\<open>ApiUtils.isCacheStale\<close> with its default \<open>staleThreshold = 30 * 1000\<close>.\<close>

definition isCacheStale :: "string \<Rightarrow> bool \<Rightarrow> int \<Rightarrow> ('d, 'a) cache \<Rightarrow> (string \<rightharpoonup> ('d, 'a) entry)
    \<Rightarrow> exn + (bool \<times> ('d, 'a) cache)" where
  "isCacheStale key persistent now c m =
     (case (if persistent then get now key c else Inr (m key, c)) of
        Inl e \<Rightarrow> Inl e
      | Inr (None, c') \<Rightarrow> Inr (True, c')
      | Inr (Some entry, c') \<Rightarrow>
          (if isInfiniteEntry entry then Inr (True, c')
           else Inr (now - timestamp entry > 30 * 1000, c')))"

text \<open>\<open>ApiUtils.deleteFromCache\<close>.\<close>

definition deleteFromCache :: "string \<Rightarrow> bool \<Rightarrow> ('d, 'a) cache \<Rightarrow> (string \<rightharpoonup> ('d, 'a) entry)
    \<Rightarrow> exn + (('d, 'a) cache \<times> (string \<rightharpoonup> ('d, 'a) entry))" where
  "deleteFromCache key persistent c m =
     (if persistent
      then (case delete key c of Inl e \<Rightarrow> Inl e | Inr c' \<Rightarrow> Inr (c', m))
      else Inr (c, m(key := None)))"

text \<open>\<open>ApiUtils.createRequestController\<close> and \<open>ApiUtils.cleanupRequest\<close> on the ref of a
  \<open>useApi\<close> instance.\<close>

definition api_createRequestController :: "('d, 'a) api_state \<Rightarrow> nat \<times> ('d, 'a) api_state" where
  "api_createRequestController s =
     (api_controllers s,
      s\<lparr>api_aborted := (case api_abortControllerRef s of
                           Some c \<Rightarrow> insert c (api_aborted s)
                         | None \<Rightarrow> api_aborted s),
        api_abortControllerRef := Some (api_controllers s),
        api_controllers := Suc (api_controllers s)\<rparr>)"

definition api_cleanupRequest :: "nat \<Rightarrow> ('d, 'a) api_state \<Rightarrow> ('d, 'a) api_state" where
  "api_cleanupRequest c s =
     (if api_abortControllerRef s = Some c then s\<lparr>api_abortControllerRef := None\<rparr> else s)"

text \<open>The initial state of \<open>useApi\<close>: \<open>data\<close> comes from the cache.\<close>

definition useApi_init :: "api_config \<Rightarrow> int \<Rightarrow> ('d, 'a) cache \<Rightarrow> (string \<rightharpoonup> ('d, 'a) entry)
    \<Rightarrow> ('d, 'a) api_state" where
  "useApi_init cfg now c m =
     (case (if \<not> api_enabled cfg then (None, c)
            else getCachedData (api_cacheKey cfg) (api_persistentCache cfg) now c m) of
        (d, c') \<Rightarrow>
          \<lparr>api_data = d, api_loading = False, api_error = None, api_abortControllerRef = None,
           api_aborted = {}, api_controllers = 0, api_issued = 0, api_cache_store = c',
           api_memoryCache = m\<rparr>)"

text \<open>\<open>fetchData(showLoading)\<close> up to its \<open>await\<close>.\<close>

definition fetchData_start :: "bool \<Rightarrow> ('d, 'a) api_state \<Rightarrow> nat \<times> ('d, 'a) api_state" where
  "fetchData_start showLoading s =
     (case api_createRequestController s of (c, s1) \<Rightarrow>
        let s2 = (if showLoading then s1\<lparr>api_loading := True, api_error := None\<rparr> else s1)
        in (c, s2\<lparr>api_issued := api_issued s2 + 1\<rparr>))"

text \<open>The \<open>catch\<close> block of \<open>fetchData\<close>.\<close>

definition fetchData_catch :: "nat \<Rightarrow> thrown \<Rightarrow> ('d, 'a) api_state \<Rightarrow> ('d, 'a) api_state" where
  "fetchData_catch c t s =
     (if c \<in> api_aborted s then s else s\<lparr>api_error := Some (errorMessage t)\<rparr>)"

text \<open>\<open>fetchData\<close> after its \<open>await\<close>, for the controller \<open>c\<close> it created.\<close>

definition fetchData_settle :: "api_config \<Rightarrow> int \<Rightarrow> nat \<Rightarrow> bool \<Rightarrow> 'd outcome
    \<Rightarrow> ('d, 'a) api_state \<Rightarrow> ('d, 'a) api_state" where
  "fetchData_settle cfg now c showLoading out s =
     (let s' = (case out of
                  Rejected t \<Rightarrow> fetchData_catch c t s
                | Resolved result \<Rightarrow>
                    if c \<in> api_aborted s then s
                    else let s1 = s\<lparr>api_data := Some result, api_error := None\<rparr>
                         in (case setCachedData (api_cacheKey cfg) result (api_cacheTtl cfg)
                                    (api_persistentCache cfg) now (api_cache_store s1)
                                    (api_memoryCache s1) of
                               Inl e \<Rightarrow> fetchData_catch c (thrown_of e) s1
                             | Inr cm \<Rightarrow> s1\<lparr>api_cache_store := fst cm, api_memoryCache := snd cm\<rparr>))
      in api_cleanupRequest c
           (if c \<notin> api_aborted s' \<and> showLoading then s'\<lparr>api_loading := False\<rparr> else s'))"

text \<open>\<open>refetch()\<close> and \<open>invalidateCache()\<close> of \<open>useApi\<close>.\<close>

definition api_refetch :: "('d, 'a) api_state \<Rightarrow> nat \<times> ('d, 'a) api_state" where
  "api_refetch s = fetchData_start True s"

definition api_invalidateCache :: "api_config \<Rightarrow> ('d, 'a) api_state
    \<Rightarrow> exn + (nat \<times> ('d, 'a) api_state)" where
  "api_invalidateCache cfg s =
     (case deleteFromCache (api_cacheKey cfg) (api_persistentCache cfg) (api_cache_store s)
             (api_memoryCache s) of
        Inl e \<Rightarrow> Inl e
      | Inr cm \<Rightarrow> Inr (api_refetch (s\<lparr>api_cache_store := fst cm, api_memoryCache := snd cm\<rparr>)))"

text \<open>
  \<open>if (data)\<close> on the state \<open>data: T | null\<close>: \<open>null\<close> is falsy, and a payload is truthy or
  falsy as JavaScript has it for its type \<open>T\<close> (\<open>0\<close>, \<open>''\<close>, \<open>false\<close> and \<open>NaN\<close> are falsy,
  every object and array is truthy). The truthiness of payloads is the parameter \<open>truthy\<close>.
\<close>

definition data_truthy :: "('d \<Rightarrow> bool) \<Rightarrow> 'd option \<Rightarrow> bool" where
  "data_truthy truthy v = (case v of None \<Rightarrow> False | Some d \<Rightarrow> truthy d)"

text \<open>Truthiness of a payload that is a number.\<close>

definition truthy_number :: "nat \<Rightarrow> bool" where
  "truthy_number n \<longleftrightarrow> n \<noteq> 0"

text \<open>
  The body of the initial-load effect of \<open>useApi\<close>, run at time \<open>now\<close>: with truthy data it
  revalidates in the background when the cache is stale, otherwise (no data, or a falsy
  payload) it fetches with the loading flag. It returns the controller of the request it
  started, if any.
\<close>

definition useApi_effect :: "('d \<Rightarrow> bool) \<Rightarrow> api_config \<Rightarrow> int \<Rightarrow> ('d, 'a) api_state
    \<Rightarrow> exn + (nat option \<times> ('d, 'a) api_state)" where
  "useApi_effect truthy cfg now s =
     (if \<not> api_enabled cfg then Inr (None, s)
      else if data_truthy truthy (api_data s)
      then (case isCacheStale (api_cacheKey cfg) (api_persistentCache cfg) now
                   (api_cache_store s) (api_memoryCache s) of
              Inl e \<Rightarrow> Inl e
            | Inr (stale, c') \<Rightarrow>
                let s1 = s\<lparr>api_cache_store := c'\<rparr>
                in if stale
                   then (case fetchData_start False s1 of (c, s2) \<Rightarrow> Inr (Some c, s2))
                   else Inr (None, s1))
      else (case fetchData_start True s of (c, s2) \<Rightarrow> Inr (Some c, s2)))"

section \<open>React's commit after \<open>refetch\<close>\<close>



section \<open>Invariants and sample states\<close>

text \<open>Controllers of a \<open>useApi\<close> instance are numbered in the order of their creation.\<close>

definition api_controllers_wf :: "('d, 'a) api_state \<Rightarrow> bool" where
  "api_controllers_wf s \<longleftrightarrow>
     (\<forall>c \<in> api_aborted s. c < api_controllers s) \<and>
     (case api_abortControllerRef s of None \<Rightarrow> True
      | Some c \<Rightarrow> c < api_controllers s \<and> c \<notin> api_aborted s)"

text \<open>Each step leaves the controllers alone, starts a request, runs the cleanup, or
  clears the ref of a settled request.\<close>

definition started :: "('d, 'a) infinite_state \<Rightarrow> ('d, 'a) infinite_state \<Rightarrow> bool" where
  "started s s' \<longleftrightarrow>
     aborted s' = (case abortControllerRef s of Some c \<Rightarrow> insert c (aborted s) | None \<Rightarrow> aborted s)
     \<and> controllers s' = Suc (controllers s) \<and> abortControllerRef s' = Some (controllers s)"


text \<open>
  Concrete inputs: 25 well-formed posts, a page of plain numbers, a mounted instance whose
  first request (controller 0) is in flight, an instance whose three attempts failed, an
  instance with two pages loaded, and a \<open>useApi\<close> instance over an unavailable durable tier
  whose memory tier holds a payload cached at time 0.
\<close>

definition sample_posts :: "json_post list" where
  "sample_posts =
     map (\<lambda>i. \<lparr>userId = Some 1, postId = Some (int i), title = Some ''t'', body = Some ''b''\<rparr>)
       [1..<26]"

definition sample_page :: "int \<Rightarrow> nat paginated_response" where
  "sample_page p =
     \<lparr>data = [nat p],
      pagination = \<lparr>page = p, limit = 10, total = 25, totalPages = 3, hasMore = (p < 3),
                     nextPage = (if p < 3 then Some (p + 1) else None)\<rparr>\<rparr>"

definition first_page_pending :: "(nat, nat) infinite_state" where
  "first_page_pending =
     \<lparr>pages = [], loading = True, loadingMore = False, error = None, hasMoreState = True,
      abortControllerRef = Some 0, aborted = {}, controllers = 1, currentPageRef = 1,
      retryCountRef = 0, issued = [(1, 10)], cache_store = empty_cache\<rparr>"




definition stale_sample_state :: "(nat, nat) api_state" where
  "stale_sample_state =
     \<lparr>api_data = Some 7, api_loading = False, api_error = None, api_abortControllerRef = None,
      api_aborted = {}, api_controllers = 0, api_issued = 0,
      api_cache_store = \<lparr>storage = unavailable_storage,
                         memoryCache = [''users'' \<mapsto> CacheEntry 7 0 300000]\<rparr>,
      api_memoryCache = Map.empty\<rparr>"

definition sample_api_config :: api_config where
  "sample_api_config = \<lparr>api_cacheKey = ''users'', api_cacheTtl = 300000, api_enabled = True,
                         api_persistentCache = True, refetchOnFocus = False\<rparr>"

section \<open>The cache store\<close>

lemma map_of_filter_key:
  "map_of (filter (\<lambda>p. fst p \<noteq> k') xs) k = (if k = k' then None else map_of xs k)"
  by (induction xs) auto

lemma map_of_update_item:
  "map_of (update_item k' v xs) k = (if k = k' then Some v else map_of xs k)"
  by (induction xs) auto

text \<open>What \<open>delete\<close> and \<open>set\<close> do, in closed form: neither lets an exception out.\<close>

lemma delete_eq:
  "delete key c =
     Inr (c\<lparr>storage := (if removeItem_throws (storage c) then storage c
                         else (storage c)\<lparr>items := filter (\<lambda>p. fst p \<noteq> CACHE_PREFIX @ key)
                                                      (items (storage c))\<rparr>),
            memoryCache := (memoryCache c)(key := None)\<rparr>)"
  by (simp add: delete_def removeItem_def)

lemma set_entry_eq:
  "set_entry key e c =
     Inr (c\<lparr>storage := (if setItem_throws (storage c) then storage c
                         else (storage c)\<lparr>items := update_item (CACHE_PREFIX @ key) (Json e)
                                                      (items (storage c))\<rparr>),
            memoryCache := (memoryCache c)(key \<mapsto> e)\<rparr>)"
  by (simp add: set_entry_def setItem_def JSON_stringify_def)

lemma get_never_throws: "\<not> isl (get now key c)"
  by (simp add: get_def split: sum.splits option.splits)

lemma clear_never_throws: "\<not> isl (clear c)"
  by (simp add: clear_def Let_def)

text \<open>
  The durable path of \<open>get\<close> honours the expiry time: an entry read from a working durable
  tier after \<open>expiresAt\<close> is reported absent and leaves the memory tier, and the durable
  tier too when \<open>removeItem\<close> works; at or before \<open>expiresAt\<close> it is returned and promoted.
\<close>

lemma get_durable_expired:
  assumes "\<not> getItem_throws (storage c)"
    and "map_of (items (storage c)) (CACHE_PREFIX @ key) = Some (Json e)"
    and "now > expiresAt e"
  shows "\<exists>c'. get now key c = Inr (None, c') \<and> memoryCache c' key = None
           \<and> (\<not> removeItem_throws (storage c)
                \<longrightarrow> map_of (items (storage c')) (CACHE_PREFIX @ key) = None)"
  using assms
  by (simp add: get_def get_try_def getItem_def JSON_parse_def delete_eq map_of_filter_key)

lemma get_durable_fresh:
  assumes "\<not> getItem_throws (storage c)"
    and "map_of (items (storage c)) (CACHE_PREFIX @ key) = Some (Json e)"
    and "now \<le> expiresAt e"
  shows "get now key c = Inr (Some e, c\<lparr>memoryCache := (memoryCache c)(key \<mapsto> e)\<rparr>)"
  using assms
  by (simp add: get_def get_try_def getItem_def JSON_parse_def)

text \<open>
  C1. TTL correctness on every tier path. The memory-only path of \<open>get\<close> has no expiry
  test: with the durable tier unavailable, an entry created at time 0 with a TTL of 100
  and held by the memory tier is still returned by a \<open>get\<close> at time 101, and it stays in
  the memory tier. The claim asks for absent and for removal here, as the durable path does
  (\<open>get_durable_expired\<close>).
\<close>

theorem C1_memory_tier_returns_expired:
  "get 101 ''k''
     \<lparr>storage = unavailable_storage,
      memoryCache = [''k'' \<mapsto> (createSingleEntry 0 (7::nat) 100 :: (nat, nat) entry)]\<rparr>
   = Inr (Some (CacheEntry 7 0 100),
          \<lparr>storage = unavailable_storage, memoryCache = [''k'' \<mapsto> CacheEntry 7 0 100]\<rparr>)"
  by (simp add: get_def get_try_def getItem_def createSingleEntry_def unavailable_storage_def)

text \<open>
  C4 as stated fails: the durable tier is read first. When it still holds an older
  unexpired entry under the key and its writes throw, \<open>set\<close> stores the new entry in the
  memory tier only, and the next \<open>get\<close> returns the older durable entry, not the one just set.
\<close>

theorem C4_stale_durable_entry_wins:
  "set_entry ''k'' (CacheEntry (2::nat) 10 110)
     \<lparr>storage = \<lparr>items = [(''api_cache_k'', Json (CacheEntry 1 0 100))],
                  getItem_throws = False, setItem_throws = True,
                  removeItem_throws = True, enumerate_throws = False\<rparr>,
      memoryCache = Map.empty\<rparr>
   = Inr \<lparr>storage = \<lparr>items = [(''api_cache_k'', Json (CacheEntry 1 0 100))],
                      getItem_throws = False, setItem_throws = True,
                      removeItem_throws = True, enumerate_throws = False\<rparr>,
          memoryCache = [''k'' \<mapsto> (CacheEntry 2 10 110 :: (nat, nat) entry)]\<rparr>
   \<and> fst (projr (get 50 ''k''
       \<lparr>storage = \<lparr>items = [(''api_cache_k'', Json (CacheEntry 1 0 100))],
                    getItem_throws = False, setItem_throws = True,
                    removeItem_throws = True, enumerate_throws = False\<rparr>,
        memoryCache = [''k'' \<mapsto> (CacheEntry (2::nat) 10 110 :: (nat, nat) entry)]\<rparr>))
     = Some (CacheEntry 1 0 100)"
  by (simp add: set_entry_eq get_def get_try_def getItem_def JSON_parse_def CACHE_PREFIX_def)

text \<open>
  C4, amended. If every durable-tier write throws and the durable tier yields no entry for
  the key (it holds none under it, or its reads throw as well), then \<open>set(key, entry)\<close>
  stores the entry in the memory tier and a \<open>get(key)\<close> within the TTL returns it. In every
  state of the cache, \<open>set\<close>, \<open>get\<close>, \<open>delete\<close> and \<open>clear\<close> let no exception out.
\<close>

theorem C4_storage_degradation:
  assumes "setItem_throws (storage c)"
    and "getItem_throws (storage c) \<or> map_of (items (storage c)) (CACHE_PREFIX @ key) = None"
    and "now \<le> expiresAt entry"
  shows "(\<exists>c'. set_entry key entry c = Inr c' \<and> memoryCache c' key = Some entry
            \<and> get now key c' = Inr (Some entry, c'))
         \<and> \<not> isl (set_entry k e x) \<and> \<not> isl (get t k x) \<and> \<not> isl (delete k x) \<and> \<not> isl (clear x)"
proof -
  let ?c' = "c\<lparr>memoryCache := (memoryCache c)(key \<mapsto> entry)\<rparr>"
  have s: "set_entry key entry c = Inr ?c'"
    using assms(1) by (simp add: set_entry_eq)
  have g: "get now key ?c' = Inr (Some entry, ?c')"
    using assms(2) by (auto simp: get_def get_try_def getItem_def)
  have n: "\<not> isl (set_entry k e x) \<and> \<not> isl (get t k x) \<and> \<not> isl (delete k x) \<and> \<not> isl (clear x)"
    by (simp add: set_entry_eq delete_eq get_never_throws clear_never_throws)
  from s g n show ?thesis by simp
qed

theorem C4_storage_degradation_witness:
  "setItem_throws (storage \<lparr>storage = unavailable_storage, memoryCache = Map.empty\<rparr>)
   \<and> getItem_throws (storage \<lparr>storage = unavailable_storage, memoryCache = Map.empty\<rparr>)
   \<and> (50::int) \<le> expiresAt (CacheEntry (2::nat) 10 110 :: (nat, nat) entry)
   \<and> (\<exists>c'. set_entry ''k'' (CacheEntry (2::nat) 10 110 :: (nat, nat) entry)
               \<lparr>storage = unavailable_storage, memoryCache = Map.empty\<rparr> = Inr c'
            \<and> memoryCache c' ''k'' = Some (CacheEntry 2 10 110)
            \<and> get 50 ''k'' c' = Inr (Some (CacheEntry 2 10 110), c'))"
  using C4_storage_degradation
    [of "\<lparr>storage = unavailable_storage, memoryCache = Map.empty\<rparr>" "''k''" 50
        "CacheEntry (2::nat) 10 110 :: (nat, nat) entry" "''k''"
        "CacheEntry (2::nat) 10 110 :: (nat, nat) entry"
        "\<lparr>storage = unavailable_storage, memoryCache = Map.empty\<rparr>" 50]
  by (auto simp: unavailable_storage_def)

section \<open>Decimal numerals\<close>

lemma digit_char_inj: "a < 10 \<Longrightarrow> b < 10 \<Longrightarrow> digit_char a = digit_char b \<Longrightarrow> a = b"
  unfolding digit_char_def by (simp split: if_splits; arith)

lemma digit_char_not:
  "digit_char d \<noteq> CHR ''_''" "digit_char d \<noteq> CHR ''-''" "digit_char d \<noteq> CHR ''a''"
  by (simp_all add: digit_char_def)


lemma digits_small: "n < 10 \<Longrightarrow> digits n = [digit_char n]"
  by (subst digits.simps) simp

lemma digits_big: "\<not> n < 10 \<Longrightarrow> digits n = digits (n div 10) @ [digit_char (n mod 10)]"
  by (subst digits.simps) simp

lemma digits_nonempty: "digits n \<noteq> []"
proof (cases "n < 10")
  case True
  then show ?thesis using digits_small[OF True] by simp
next
  case False
  then show ?thesis using digits_big[OF False] by simp
qed

lemma digits_length: "\<not> n < 10 \<Longrightarrow> length (digits n) \<ge> 2"
proof -
  assume b: "\<not> n < 10"
  obtain a l where "digits (n div 10) = a # l"
    using digits_nonempty[of "n div 10"] by (cases "digits (n div 10)") auto
  with digits_big[OF b] show ?thesis by simp
qed

lemma digits_inj: "digits n = digits m \<Longrightarrow> n = m"
proof (induction n arbitrary: m rule: digits.induct)
  case (1 n)
  show ?case
  proof (cases "n < 10")
    case True
    show ?thesis
    proof (cases "m < 10")
      case mt: True
      from "1.prems" True mt have "digit_char n = digit_char m"
        by (simp add: digits_small)
      with True mt show ?thesis by (simp add: digit_char_inj)
    next
      case False
      then have "length (digits m) \<ge> 2" by (rule digits_length)
      moreover from True have "length (digits n) = 1" by (simp add: digits_small)
      ultimately show ?thesis using "1.prems" by simp
    qed
  next
    case False
    show ?thesis
    proof (cases "m < 10")
      case True
      from False have "length (digits n) \<ge> 2" by (rule digits_length)
      moreover from True have "length (digits m) = 1" by (simp add: digits_small)
      ultimately show ?thesis using "1.prems" by simp
    next
      case mf: False
      from "1.prems" digits_big[OF False] digits_big[OF mf]
      have e: "digits (n div 10) @ [digit_char (n mod 10)] = digits (m div 10) @ [digit_char (m mod 10)]"
        by simp
      then have "digits (n div 10) = digits (m div 10)" and dc: "digit_char (n mod 10) = digit_char (m mod 10)"
        by simp_all
      with "1.IH"[OF False] have d: "n div 10 = m div 10" by simp
      from dc have "n mod 10 = m mod 10" by (intro digit_char_inj) simp_all
      with d show ?thesis by (metis div_mult_mod_eq)
    qed
  qed
qed

lemma digits_chars: "c \<in> set (digits n) \<Longrightarrow> c \<noteq> CHR ''_'' \<and> c \<noteq> CHR ''-'' \<and> c \<noteq> CHR ''a''"
proof (induction n rule: digits.induct)
  case (1 n)
  show ?case
  proof (cases "n < 10")
    case True
    with "1.prems" digits_small[OF True] show ?thesis by (auto simp: digit_char_not)
  next
    case False
    with "1.prems" "1.IH" digits_big[OF False] show ?thesis by (auto simp: digit_char_not)
  qed
qed

lemma toString_inj: "toString i = toString j \<Longrightarrow> i = j"
proof -
  assume e: "toString i = toString j"
  have hd: "\<And>n. hd (digits n) \<noteq> CHR ''-''"
    using digits_chars digits_nonempty by (metis hd_in_set)
  show ?thesis
  proof (cases "i < 0")
    case True
    show ?thesis
    proof (cases "j < 0")
      case jt: True
      with True e have "digits (nat (- i)) = digits (nat (- j))" by (simp add: toString_def)
      then have "nat (- i) = nat (- j)" by (rule digits_inj)
      with True jt show ?thesis by simp
    next
      case False
      with True e have "CHR ''-'' # digits (nat (- i)) = digits (nat j)" by (simp add: toString_def)
      then have "hd (digits (nat j)) = CHR ''-''" by (metis list.sel(1))
      with hd show ?thesis by blast
    qed
  next
    case False
    show ?thesis
    proof (cases "j < 0")
      case True
      with False e have "digits (nat i) = CHR ''-'' # digits (nat (- j))" by (simp add: toString_def)
      then have "hd (digits (nat i)) = CHR ''-''" by (metis list.sel(1))
      with hd show ?thesis by blast
    next
      case jf: False
      with False e have "digits (nat i) = digits (nat j)" by (simp add: toString_def)
      then have "nat i = nat j" by (rule digits_inj)
      with False jf show ?thesis by simp
    qed
  qed
qed

lemma toString_chars: "c \<in> set (toString i) \<Longrightarrow> c \<noteq> CHR ''_''"
  using digits_chars by (auto simp: toString_def split: if_splits)

lemma toString_not_all: "toString i \<noteq> ''all''"
proof
  assume a: "toString i = ''all''"
  have "toString i \<noteq> []" by (simp add: toString_def digits_nonempty)
  have "hd (toString i) \<noteq> CHR ''a''"
    using digits_chars[of "hd (digits (nat i))" "nat i"] digits_nonempty[of "nat i"]
    by (auto simp: toString_def)
  with a show False by simp
qed

lemma split_at_sep:
  "xs @ sep # r = ys @ sep # r' \<Longrightarrow> sep \<notin> set xs \<Longrightarrow> sep \<notin> set ys \<Longrightarrow> xs = ys \<and> r = r'"
proof (induction xs arbitrary: ys)
  case Nil
  then show ?case by (cases ys) auto
next
  case (Cons x xs)
  then show ?case by (cases ys) auto
qed

section \<open>Cache keys\<close>

text \<open>Apart from the user id \<open>0\<close>, the key determines the limit and the user filter.\<close>

lemma cacheKey_inj:
  assumes "cacheKey l u = cacheKey l' u'" and "u \<noteq> Some 0" and "u' \<noteq> Some 0"
  shows "l = l' \<and> u = u'"
proof -
  let ?t = "\<lambda>u. case u of None \<Rightarrow> ''all'' | Some (v::int) \<Rightarrow> if v = 0 then ''all'' else toString v"
  from assms(1) have "toString l @ CHR ''_'' # (''user_'' @ ?t u) = toString l' @ CHR ''_'' # (''user_'' @ ?t u')"
    by (simp add: cacheKey_def)
  then have "toString l = toString l' \<and> ''user_'' @ ?t u = ''user_'' @ ?t u'"
    by (rule split_at_sep) (use toString_chars in blast)+
  then have l: "l = l'" and t: "?t u = ?t u'" by (simp_all add: toString_inj)
  from t assms(2,3) have "u = u'"
    using toString_not_all toString_inj
    by (cases u; cases u') (auto split: if_splits simp del: )
  with l show ?thesis by simp
qed

text \<open>
  C7. The key is a function of \<open>(limit, userId)\<close>, so the same combination always yields the
  same key. It is not injective: \<open>userId || 'all'\<close> treats the user id \<open>0\<close> as absent, so
  the filter \<open>userId = 0\<close> and the unfiltered feed share the key
  \<open>posts_infinite_limit_10_user_all\<close>, while \<open>postsFetcher\<close> of the same hook tests
  \<open>currentUserId !== undefined\<close> and sends \<open>userId=0\<close> to the server.
\<close>

theorem C7_user_zero_collides_with_all:
  "cacheKey 10 (Some 0) = cacheKey 10 None
   \<and> cacheKey 10 None = ''posts_infinite_limit_10_user_all''"
  by (simp add: cacheKey_def toString_def digits.simps digit_char_def)

section \<open>Cross-filter invalidation\<close>

lemma clearUserCaches_result:
  "\<exists>c'. clearUserCaches lim u c = Inr c'
     \<and> removeItem_throws (storage c') = removeItem_throws (storage c)
     \<and> (\<forall>k. memoryCache c' k =
            (if \<exists>i. u \<le> i \<and> i \<le> 10 \<and> k = userCacheKey lim i then None else memoryCache c k))
     \<and> (\<not> removeItem_throws (storage c) \<longrightarrow>
          (\<forall>k. map_of (items (storage c')) (CACHE_PREFIX @ k) =
             (if \<exists>i. u \<le> i \<and> i \<le> 10 \<and> k = userCacheKey lim i then None
              else map_of (items (storage c)) (CACHE_PREFIX @ k))))"
proof (induction lim u c rule: clearUserCaches.induct)
  case (1 lim uid c)
  show ?case
  proof (cases "uid \<le> 10")
    case False
    then show ?thesis by (subst clearUserCaches.simps) auto
  next
    case True
    let ?c1 = "c\<lparr>storage := (if removeItem_throws (storage c) then storage c
                         else (storage c)\<lparr>items := filter (\<lambda>p. fst p \<noteq> CACHE_PREFIX @ userCacheKey lim uid)
                                                      (items (storage c))\<rparr>),
            memoryCache := (memoryCache c)(userCacheKey lim uid := None)\<rparr>"
    have d: "delete (userCacheKey lim uid) c = Inr ?c1" by (rule delete_eq)
    from "1.IH"[OF True d] obtain c' where
      r: "clearUserCaches lim (uid + 1) ?c1 = Inr c'"
      and t: "removeItem_throws (storage c') = removeItem_throws (storage ?c1)"
      and m: "\<forall>k. memoryCache c' k =
            (if \<exists>i. uid + 1 \<le> i \<and> i \<le> 10 \<and> k = userCacheKey lim i then None else memoryCache ?c1 k)"
      and s: "\<not> removeItem_throws (storage ?c1) \<longrightarrow>
          (\<forall>k. map_of (items (storage c')) (CACHE_PREFIX @ k) =
             (if \<exists>i. uid + 1 \<le> i \<and> i \<le> 10 \<and> k = userCacheKey lim i then None
              else map_of (items (storage ?c1)) (CACHE_PREFIX @ k)))"
      by blast
    have rng: "\<And>k. (\<exists>i. uid \<le> i \<and> i \<le> 10 \<and> k = userCacheKey lim i)
                 \<longleftrightarrow> k = userCacheKey lim uid \<or> (\<exists>i. uid + 1 \<le> i \<and> i \<le> 10 \<and> k = userCacheKey lim i)"
      using True by (metis add1_zle_eq order_le_less)
    have e: "clearUserCaches lim uid c = Inr c'"
      using True d r by (subst clearUserCaches.simps) simp
    have t': "removeItem_throws (storage c') = removeItem_throws (storage c)"
      using t by simp
    have m': "\<forall>k. memoryCache c' k =
            (if \<exists>i. uid \<le> i \<and> i \<le> 10 \<and> k = userCacheKey lim i then None else memoryCache c k)"
    proof
      fix k
      from m have "memoryCache c' k =
            (if \<exists>i. uid + 1 \<le> i \<and> i \<le> 10 \<and> k = userCacheKey lim i then None else memoryCache ?c1 k)"
        by (rule spec)
      then show "memoryCache c' k =
            (if \<exists>i. uid \<le> i \<and> i \<le> 10 \<and> k = userCacheKey lim i then None else memoryCache c k)"
        unfolding rng[of k] by (cases "k = userCacheKey lim uid") auto
    qed
    have s': "\<not> removeItem_throws (storage c) \<longrightarrow>
          (\<forall>k. map_of (items (storage c')) (CACHE_PREFIX @ k) =
             (if \<exists>i. uid \<le> i \<and> i \<le> 10 \<and> k = userCacheKey lim i then None
              else map_of (items (storage c)) (CACHE_PREFIX @ k)))"
    proof (intro impI allI)
      fix k
      assume nt: "\<not> removeItem_throws (storage c)"
      with s have "map_of (items (storage c')) (CACHE_PREFIX @ k) =
             (if \<exists>i. uid + 1 \<le> i \<and> i \<le> 10 \<and> k = userCacheKey lim i then None
              else map_of (items (storage ?c1)) (CACHE_PREFIX @ k))"
        by simp
      then show "map_of (items (storage c')) (CACHE_PREFIX @ k) =
             (if \<exists>i. uid \<le> i \<and> i \<le> 10 \<and> k = userCacheKey lim i then None
              else map_of (items (storage c)) (CACHE_PREFIX @ k))"
        unfolding rng[of k] using nt
        by (cases "k = userCacheKey lim uid") (auto simp: map_of_filter_key)
    qed
    from e t' m' s' show ?thesis by blast
  qed
qed


text \<open>
  C8 as stated fails: the effect sees the new selection only. Selecting user 5 while the
  entry of user 3 is cached in both tiers deletes the \<open>all users\<close> key and nothing else;
  the entry of user 3 is still there afterwards.
\<close>

theorem C8_other_user_entries_survive:
  "filtersCacheEffect (Some 5) 10
     \<lparr>storage = \<lparr>items = [(''api_cache_posts_infinite_limit_10_user_3'',
                            Json (InfiniteCacheEntry [] 0 300000))],
                  getItem_throws = False, setItem_throws = False,
                  removeItem_throws = False, enumerate_throws = False\<rparr>,
      memoryCache = [''posts_infinite_limit_10_user_3'' \<mapsto>
                       (InfiniteCacheEntry [] 0 300000 :: (nat, nat) entry)]\<rparr>
   = Inr \<lparr>storage = \<lparr>items = [(''api_cache_posts_infinite_limit_10_user_3'',
                            Json (InfiniteCacheEntry [] 0 300000))],
                  getItem_throws = False, setItem_throws = False,
                  removeItem_throws = False, enumerate_throws = False\<rparr>,
      memoryCache = [''posts_infinite_limit_10_user_3'' \<mapsto>
                       (InfiniteCacheEntry [] 0 300000 :: (nat, nat) entry)]\<rparr>
   \<and> userCacheKey 10 3 = ''posts_infinite_limit_10_user_3''"
  by (simp add: filtersCacheEffect_def delete_eq allUsersKey_def userCacheKey_def toString_def
      digits.simps digit_char_def CACHE_PREFIX_def fun_upd_idem)

text \<open>
  C8, amended. The effect deletes by the new selection: when a specific user is selected
  (from unconstrained or from another user) it deletes the \<open>all users\<close> entry and leaves
  every other key as it was; when unconstrained is selected it deletes the entries of
  every user id from 1 to 10. The memory tier always loses the entry, the durable tier
  whenever \<open>removeItem\<close> does not throw. The effect never throws.
\<close>

theorem C8_cross_filter_invalidation:
  "\<exists>c'. filtersCacheEffect sel lim c = Inr c' \<and>
     (case sel of
        Some u \<Rightarrow>
          memoryCache c' (allUsersKey lim) = None
          \<and> (\<not> removeItem_throws (storage c)
               \<longrightarrow> map_of (items (storage c')) (CACHE_PREFIX @ allUsersKey lim) = None)
          \<and> (\<forall>k. k \<noteq> allUsersKey lim \<longrightarrow>
                memoryCache c' k = memoryCache c k
                \<and> map_of (items (storage c')) (CACHE_PREFIX @ k)
                    = map_of (items (storage c)) (CACHE_PREFIX @ k))
      | None \<Rightarrow>
          (\<forall>uid \<in> {1..10}.
             memoryCache c' (userCacheKey lim uid) = None
             \<and> (\<not> removeItem_throws (storage c)
                  \<longrightarrow> map_of (items (storage c')) (CACHE_PREFIX @ userCacheKey lim uid) = None)))"
proof (cases sel)
  case None
  from clearUserCaches_result[of lim 1 c] obtain c' where
    "clearUserCaches lim 1 c = Inr c'"
    "\<forall>k. memoryCache c' k =
            (if \<exists>i. 1 \<le> i \<and> i \<le> 10 \<and> k = userCacheKey lim i then None else memoryCache c k)"
    "\<not> removeItem_throws (storage c) \<longrightarrow>
          (\<forall>k. map_of (items (storage c')) (CACHE_PREFIX @ k) =
             (if \<exists>i. 1 \<le> i \<and> i \<le> 10 \<and> k = userCacheKey lim i then None
              else map_of (items (storage c)) (CACHE_PREFIX @ k)))"
    by blast
  with None show ?thesis by (auto simp: filtersCacheEffect_def)
next
  case (Some u)
  then show ?thesis
    by (simp add: filtersCacheEffect_def delete_eq map_of_filter_key)
qed


theorem C8_cross_filter_invalidation_witness:
  "\<not> removeItem_throws (storage
       \<lparr>storage = empty_storage\<lparr>items := [(''api_cache_posts_infinite_limit_10_user_3'',
                                            Json (InfiniteCacheEntry [] 0 300000))]\<rparr>,
        memoryCache = [''posts_infinite_limit_10_user_3'' \<mapsto>
                         (InfiniteCacheEntry [] 0 300000 :: (nat, nat) entry)]\<rparr>)
   \<and> (3::int) \<in> {1..10}
   \<and> (\<exists>c'. filtersCacheEffect None 10
               \<lparr>storage = empty_storage\<lparr>items := [(''api_cache_posts_infinite_limit_10_user_3'',
                                            Json (InfiniteCacheEntry [] 0 300000))]\<rparr>,
                memoryCache = [''posts_infinite_limit_10_user_3'' \<mapsto>
                                 (InfiniteCacheEntry [] 0 300000 :: (nat, nat) entry)]\<rparr> = Inr c'
          \<and> memoryCache c' (userCacheKey 10 3) = None
          \<and> map_of (items (storage c')) (CACHE_PREFIX @ userCacheKey 10 3) = None)"
  using C8_cross_filter_invalidation
    [of None 10 "\<lparr>storage = empty_storage\<lparr>items := [(''api_cache_posts_infinite_limit_10_user_3'',
                                            Json (InfiniteCacheEntry [] 0 300000))]\<rparr>,
                memoryCache = [''posts_infinite_limit_10_user_3'' \<mapsto>
                                 (InfiniteCacheEntry [] 0 300000 :: (nat, nat) entry)]\<rparr>"]
  by (auto simp: empty_storage_def)

section \<open>Validation at the fetch boundary\<close>

lemma validate_posts_ok:
  "validate_posts i ps = Inr u \<Longrightarrow> \<forall>p \<in> set ps. \<not> invalid_post p"
  by (induction ps arbitrary: i) (auto split: if_splits)

lemma validate_posts_all_valid:
  "\<forall>p \<in> set ps. \<not> invalid_post p \<Longrightarrow> validate_posts i ps = Inr ()"
  by (induction ps arbitrary: i) auto

lemma validate_posts_fail:
  "\<exists>p \<in> set ps. invalid_post p \<Longrightarrow>
   \<exists>k < length ps. validate_posts i ps
      = Inl (Error (''Invalid post structure at index '' @ toString (int (i + k))))"
proof (induction ps arbitrary: i)
  case Nil
  then show ?case by simp
next
  case (Cons p ps)
  show ?case
  proof (cases "invalid_post p")
    case True
    then have "validate_posts i (p # ps)
      = Inl (Error (''Invalid post structure at index '' @ toString (int (i + 0))))" by simp
    then show ?thesis by blast
  next
    case False
    with Cons.prems have "\<exists>q \<in> set ps. invalid_post q" by auto
    from Cons.IH[OF this, of "Suc i"] obtain k where "k < length ps"
      "validate_posts (Suc i) ps
        = Inl (Error (''Invalid post structure at index '' @ toString (int (Suc i + k))))" by blast
    with False have "Suc k < length (p # ps)" "validate_posts i (p # ps)
      = Inl (Error (''Invalid post structure at index '' @ toString (int (i + Suc k))))" by simp_all
    then show ?thesis by blast
  qed
qed

lemma not_invalid_post:
  "\<not> invalid_post p \<longleftrightarrow>
     (\<exists>n. postId p = Some n \<and> n \<noteq> 0) \<and> (\<exists>n. userId p = Some n \<and> n \<noteq> 0)
     \<and> (\<exists>t. title p = Some t \<and> t \<noteq> []) \<and> (\<exists>b. body p = Some b \<and> b \<noteq> [])"
  by (auto simp: invalid_post_def falsy_number_def falsy_string_def split: option.splits)

lemma fetchPaginatedPosts_data_valid:
  assumes "fetchPaginatedPosts server params = Inr res"
  shows "\<forall>p \<in> set (data res). \<not> invalid_post p"
proof -
  from assms obtain r where r: "fetchPaginatedPosts_try server params = Inr r" and "r = res"
    by (auto simp: fetchPaginatedPosts_def split: sum.splits)
  then have "\<exists>u. validate_posts 0 (data res) = Inr u"
    by (auto simp: fetchPaginatedPosts_try_def Let_def
        split: fetch_result.splits if_splits json_body.splits sum.splits)
  then show ?thesis using validate_posts_ok by blast
qed

lemma fetchPosts_valid:
  assumes "fetchPosts server = Inr posts"
  shows "\<forall>p \<in> set posts. \<not> invalid_post p"
proof -
  from assms have "fetchPosts_try server = Inr posts"
    by (auto simp: fetchPosts_def split: sum.splits)
  then have "\<exists>u. validate_posts 0 posts = Inr u"
    by (auto simp: fetchPosts_try_def
        split: fetch_result.splits if_splits json_body.splits sum.splits)
  then show ?thesis using validate_posts_ok by blast
qed

lemma fetch_invalid_rejected:
  assumes "ok r" and "json r = Posts ps" and "\<exists>p \<in> set ps. invalid_post p"
  shows "\<exists>i < length ps.
     fetchPaginatedPosts (\<lambda>q. Responded r) params
       = Inl (''Failed to fetch paginated posts: Invalid post structure at index '' @ toString (int i))
     \<and> fetchPosts (\<lambda>q. Responded r)
       = Inl (''Failed to fetch posts: Invalid post structure at index '' @ toString (int i))"
proof -
  from validate_posts_fail[OF assms(3), of 0] obtain k where k: "k < length ps"
    and v: "validate_posts 0 ps = Inl (Error (''Invalid post structure at index '' @ toString (int k)))"
    by auto
  have "fetchPaginatedPosts (\<lambda>q. Responded r) params
       = Inl (''Failed to fetch paginated posts: Invalid post structure at index '' @ toString (int k))"
    using assms(1,2) v
    by (simp add: fetchPaginatedPosts_def fetchPaginatedPosts_try_def Let_def rethrow_def)
  moreover have "fetchPosts (\<lambda>q. Responded r)
       = Inl (''Failed to fetch posts: Invalid post structure at index '' @ toString (int k))"
    using assms(1,2) v
    by (simp add: fetchPosts_def fetchPosts_try_def rethrow_def)
  ultimately show ?thesis using k by blast
qed

text \<open>
  C10. When the response is ok and its body is an array in which some post has a falsy
  \<open>id\<close>, \<open>userId\<close>, \<open>title\<close> or \<open>body\<close>, both \<open>fetchPaginatedPosts\<close> and \<open>fetchPosts\<close> throw
  the \<open>Invalid post structure at index i\<close> error (behind the prefix their \<open>catch\<close> block
  adds), \<open>i\<close> being the index of the first such post. Hence every post of an array they
  return has a nonzero \<open>id\<close> and \<open>userId\<close> and a non-empty \<open>title\<close> and \<open>body\<close>.
\<close>

theorem C10_falsy_fields_rejected:
  "(ok r \<and> json r = Posts ps \<and> (\<exists>p \<in> set ps. invalid_post p) \<longrightarrow>
      (\<exists>i < length ps.
         fetchPaginatedPosts (\<lambda>q. Responded r) params
           = Inl (''Failed to fetch paginated posts: Invalid post structure at index ''
                    @ toString (int i))
         \<and> fetchPosts (\<lambda>q. Responded r)
           = Inl (''Failed to fetch posts: Invalid post structure at index '' @ toString (int i))))
   \<and> (fetchPaginatedPosts server params' = Inr res \<longrightarrow>
        (\<forall>p \<in> set (data res).
           (\<exists>n. postId p = Some n \<and> n \<noteq> 0) \<and> (\<exists>n. userId p = Some n \<and> n \<noteq> 0)
           \<and> (\<exists>t. title p = Some t \<and> t \<noteq> []) \<and> (\<exists>b. body p = Some b \<and> b \<noteq> [])))
   \<and> (fetchPosts server' = Inr posts \<longrightarrow>
        (\<forall>p \<in> set posts.
           (\<exists>n. postId p = Some n \<and> n \<noteq> 0) \<and> (\<exists>n. userId p = Some n \<and> n \<noteq> 0)
           \<and> (\<exists>t. title p = Some t \<and> t \<noteq> []) \<and> (\<exists>b. body p = Some b \<and> b \<noteq> [])))"
  using fetch_invalid_rejected[of r ps params] fetchPaginatedPosts_data_valid[of server params' res]
    fetchPosts_valid[of server' posts] not_invalid_post
  by blast

theorem C10_falsy_fields_rejected_witness:
  "ok \<lparr>ok = True, status = 200, x_total_count = Some 1,
        json = Posts [\<lparr>userId = Some 1, postId = Some 0, title = Some ''t'', body = Some ''b''\<rparr>]\<rparr>
   \<and> invalid_post \<lparr>userId = Some 1, postId = Some 0, title = Some ''t'', body = Some ''b''\<rparr>
   \<and> fetchPaginatedPosts
        (\<lambda>q. Responded \<lparr>ok = True, status = 200, x_total_count = Some 1,
           json = Posts [\<lparr>userId = Some 1, postId = Some 0, title = Some ''t'', body = Some ''b''\<rparr>]\<rparr>)
        \<lparr>param_page = None, param_limit = None, param_start = None, param_userId = None\<rparr>
      = Inl ''Failed to fetch paginated posts: Invalid post structure at index 0''
   \<and> fetchPaginatedPosts
        (\<lambda>q. Responded \<lparr>ok = True, status = 200, x_total_count = Some 1,
           json = Posts [\<lparr>userId = Some 1, postId = Some 1, title = Some ''t'', body = Some ''b''\<rparr>]\<rparr>)
        \<lparr>param_page = None, param_limit = None, param_start = None, param_userId = None\<rparr>
      = Inr \<lparr>data = [\<lparr>userId = Some 1, postId = Some 1, title = Some ''t'', body = Some ''b''\<rparr>],
             pagination = \<lparr>page = 1, limit = 10, total = 1, totalPages = 1, hasMore = False,
                            nextPage = None\<rparr>\<rparr>
   \<and> fetchPosts
        (\<lambda>q. Responded \<lparr>ok = True, status = 200, x_total_count = Some 1,
           json = Posts [\<lparr>userId = Some 1, postId = Some 1, title = Some ''t'', body = Some ''b''\<rparr>]\<rparr>)
      = Inr [\<lparr>userId = Some 1, postId = Some 1, title = Some ''t'', body = Some ''b''\<rparr>]
   \<and> postId \<lparr>userId = Some 1, postId = Some 1, title = Some ''t'', body = Some ''b''\<rparr> \<noteq> Some 0"
  using C10_falsy_fields_rejected
    [of "\<lparr>ok = True, status = 200, x_total_count = Some 1,
        json = Posts [\<lparr>userId = Some 1, postId = Some 0, title = Some ''t'', body = Some ''b''\<rparr>]\<rparr>"
        "[\<lparr>userId = Some 1, postId = Some 0, title = Some ''t'', body = Some ''b''\<rparr>]"
        "\<lparr>param_page = None, param_limit = None, param_start = None, param_userId = None\<rparr>"
        "\<lambda>q. Responded \<lparr>ok = True, status = 200, x_total_count = Some 1,
           json = Posts [\<lparr>userId = Some 1, postId = Some 1, title = Some ''t'', body = Some ''b''\<rparr>]\<rparr>"
        "\<lparr>param_page = None, param_limit = None, param_start = None, param_userId = None\<rparr>"
        "\<lparr>data = [\<lparr>userId = Some 1, postId = Some 1, title = Some ''t'', body = Some ''b''\<rparr>],
             pagination = \<lparr>page = 1, limit = 10, total = 1, totalPages = 1, hasMore = False,
                            nextPage = None\<rparr>\<rparr>"
        "\<lambda>q. Responded \<lparr>ok = True, status = 200, x_total_count = Some 1,
           json = Posts [\<lparr>userId = Some 1, postId = Some 1, title = Some ''t'', body = Some ''b''\<rparr>]\<rparr>"
        "[\<lparr>userId = Some 1, postId = Some 1, title = Some ''t'', body = Some ''b''\<rparr>]"]
  by (simp add: fetchPaginatedPosts_def fetchPaginatedPosts_try_def fetchPosts_def fetchPosts_try_def
      invalid_post_def falsy_number_def falsy_string_def build_query_def ceil_div_def rethrow_def
      toString_def digits.simps digit_char_def)


section \<open>Request ordering in the paginated controller\<close>

lemma setCachedPages_never_throws: "\<exists>c'. setCachedPages cfg now ps c = Inr c'"
  by (simp add: setCachedPages_def set_entry_eq Let_def)

lemmas controller_defs =
  createRequestController_def cleanupRequest_def fetchPage_start_def fetch_catch_def
  fetchPage_finally_def fetchPage_settle_def fetchFirstPage_start_def fetchFirstPage_settle_def
  initialLoadEffect_def effectCleanup_def loadMore_def refetch_def invalidateCache_def

lemma settle_ctl:
  "aborted (fetchPage_settle cfg now c pg sl ir out s) = aborted s"
  "controllers (fetchPage_settle cfg now c pg sl ir out s) = controllers s"
  "abortControllerRef (fetchPage_settle cfg now c pg sl ir out s)
     = (if abortControllerRef s = Some c then None else abortControllerRef s)"
  "aborted (fetchFirstPage_settle cfg now c out s) = aborted s"
  "controllers (fetchFirstPage_settle cfg now c out s) = controllers s"
  "abortControllerRef (fetchFirstPage_settle cfg now c out s)
     = (if abortControllerRef s = Some c then None else abortControllerRef s)"
  by (auto simp: controller_defs Let_def split: outcome.splits sum.splits)


lemma start_ctl:
  "aborted (snd (fetchPage_start cfg pg sl ir s))
     = (case abortControllerRef s of Some c \<Rightarrow> insert c (aborted s) | None \<Rightarrow> aborted s)"
  "controllers (snd (fetchPage_start cfg pg sl ir s)) = Suc (controllers s)"
  "abortControllerRef (snd (fetchPage_start cfg pg sl ir s)) = Some (controllers s)"
  "fst (fetchPage_start cfg pg sl ir s) = controllers s"
  "aborted (snd (fetchFirstPage_start cfg s))
     = (case abortControllerRef s of Some c \<Rightarrow> insert c (aborted s) | None \<Rightarrow> aborted s)"
  "controllers (snd (fetchFirstPage_start cfg s)) = Suc (controllers s)"
  "abortControllerRef (snd (fetchFirstPage_start cfg s)) = Some (controllers s)"
  "fst (fetchFirstPage_start cfg s) = controllers s"
  by (simp_all add: fetchPage_start_def fetchFirstPage_start_def createRequestController_def Let_def)

lemma step_ctl:
  "started s (step cfg ev s)
   \<or> (aborted (step cfg ev s) = aborted s \<and> controllers (step cfg ev s) = controllers s
        \<and> abortControllerRef (step cfg ev s) = abortControllerRef s)
   \<or> (controllers (step cfg ev s) = controllers s \<and> abortControllerRef (step cfg ev s) = None
        \<and> aborted (step cfg ev s)
            = (case abortControllerRef s of Some c \<Rightarrow> insert c (aborted s) | None \<Rightarrow> aborted s))
   \<or> (\<exists>c. settles c ev \<and> aborted (step cfg ev s) = aborted s
        \<and> controllers (step cfg ev s) = controllers s
        \<and> abortControllerRef s = Some c \<and> abortControllerRef (step cfg ev s) = None)"
proof (cases ev)
  case EffectRun
  then show ?thesis
    by (simp add: initialLoadEffect_def started_def start_ctl split: prod.splits)
       (metis start_ctl(5,6,7) snd_conv)
next
  case EffectCleanup
  then show ?thesis by (simp add: effectCleanup_def split: option.splits)
next
  case LoadMore
  then show ?thesis
    by (simp add: loadMore_def started_def Let_def split: prod.splits)
       (metis start_ctl(1,2,3) snd_conv)
next
  case Refetch
  then show ?thesis by (simp add: refetch_def started_def start_ctl split: option.splits)
next
  case InvalidateCache
  then show ?thesis
    by (simp add: invalidateCache_def refetch_def started_def start_ctl delete_eq
        split: option.splits)
next
  case (SettlePage c pg sl ir out now)
  then show ?thesis by (simp add: settle_ctl)
next
  case (SettleFirstPage c out now)
  then show ?thesis by (simp add: settle_ctl)
qed

lemma wf_step: "controllers_wf s \<Longrightarrow> controllers_wf (step cfg ev s)"
  using step_ctl[of s cfg ev]
  by (auto simp: controllers_wf_def started_def less_Suc_eq split: option.splits)

lemma aborted_step: "c \<in> aborted s \<Longrightarrow> c \<in> aborted (step cfg ev s)"
  using step_ctl[of s cfg ev]
  by (auto simp: started_def split: option.splits)

lemma wf_run: "controllers_wf s \<Longrightarrow> controllers_wf (run cfg evs s)"
  by (induction evs arbitrary: s) (simp_all add: wf_step)

lemma aborted_run: "c \<in> aborted s \<Longrightarrow> c \<in> aborted (run cfg evs s)"
  by (induction evs arbitrary: s) (simp_all add: aborted_step)

text \<open>Every state a mounted instance can reach is well-formed.\<close>

lemma controllers_wf_init: "controllers_wf (useInfiniteApi_init cfg now c)"
  by (simp add: useInfiniteApi_init_def controllers_wf_def split: prod.splits)

lemma controllers_wf_reachable: "controllers_wf (run cfg evs (useInfiniteApi_init cfg now c))"
  by (simp add: wf_run controllers_wf_init)

lemma inflight_step:
  "abortControllerRef s = Some a \<or> a \<in> aborted s \<Longrightarrow> \<not> settles a ev \<Longrightarrow>
   abortControllerRef (step cfg ev s) = Some a \<or> a \<in> aborted (step cfg ev s)"
  using step_ctl[of s cfg ev]
  by (auto simp: started_def split: option.splits)

lemma inflight_run:
  "abortControllerRef s = Some a \<or> a \<in> aborted s \<Longrightarrow> \<forall>ev \<in> set evs. \<not> settles a ev \<Longrightarrow>
   abortControllerRef (run cfg evs s) = Some a \<or> a \<in> aborted (run cfg evs s)"
proof (induction evs arbitrary: s)
  case Nil
  then show ?case by simp
next
  case (Cons ev evs)
  from Cons.prems have "abortControllerRef (step cfg ev s) = Some a \<or> a \<in> aborted (step cfg ev s)"
    by (intro inflight_step) simp_all
  with Cons show ?case by simp
qed

lemma superseded_by_start:
  "abortControllerRef s = Some a \<or> a \<in> aborted s \<Longrightarrow>
   controllers (step cfg ev s) \<noteq> controllers s \<Longrightarrow> a \<in> aborted (step cfg ev s)"
  using step_ctl[of s cfg ev]
  by (auto simp: started_def split: option.splits)

lemma settle_aborted:
  assumes "controllers_wf s" and "c \<in> aborted s"
  shows "fetchPage_settle cfg now c pg sl ir out s = s"
    and "fetchFirstPage_settle cfg now c out s = s"
proof -
  from assms have r: "abortControllerRef s \<noteq> Some c"
    by (auto simp: controllers_wf_def split: option.splits)
  show "fetchPage_settle cfg now c pg sl ir out s = s"
    using assms(2) r
    by (simp add: fetchPage_settle_def fetchPage_finally_def fetch_catch_def cleanupRequest_def
        split: outcome.splits)
  show "fetchFirstPage_settle cfg now c out s = s"
    using assms(2) r
    by (simp add: fetchFirstPage_settle_def fetch_catch_def cleanupRequest_def
        split: outcome.splits)
qed

section \<open>The retry gate and refetch, in closed form\<close>






lemma refetch_result:
  "refetch cfg s =
     (controllers s,
      s\<lparr>retryCountRef := 0, currentPageRef := 1, pages := [], hasMoreState := True,
        aborted := (case abortControllerRef s of Some c \<Rightarrow> insert c (aborted s)
                    | None \<Rightarrow> aborted s),
        abortControllerRef := Some (controllers s),
        controllers := Suc (controllers s),
        loading := True, error := None,
        issued := issued s @ [(1, cfg_limit cfg)]\<rparr>)"
  by (cases "abortControllerRef s")
     (simp_all add: refetch_def fetchPage_start_def createRequestController_def)

lemma setCachedPages_memory:
  "\<exists>c'. setCachedPages cfg now ps c = Inr c'
     \<and> memoryCache c' (cfg_cacheKey cfg) = Some (InfiniteCacheEntry ps now (now + cacheTtl cfg))
     \<and> (persistentCache cfg \<and> \<not> setItem_throws (storage c) \<longrightarrow>
          map_of (items (storage c')) (CACHE_PREFIX @ cfg_cacheKey cfg)
            = Some (Json (InfiniteCacheEntry ps now (now + cacheTtl cfg))))"
  by (cases "persistentCache cfg")
     (simp_all add: setCachedPages_def set_entry_eq createInfiniteEntry_def map_of_update_item
        Let_def)

text \<open>
  The first-page request of the initial-load effect replaces the pages and the cache entry
  in the same way when it resolves without having been superseded.
\<close>

lemma first_page_settle_replaces:
  assumes "c \<notin> aborted s"
  shows "pages (fetchFirstPage_settle cfg now c (Resolved r) s) = [r]"
    and "memoryCache (cache_store (fetchFirstPage_settle cfg now c (Resolved r) s))
           (cfg_cacheKey cfg) = Some (InfiniteCacheEntry [r] now (now + cacheTtl cfg))"
proof -
  obtain c' where c': "setCachedPages cfg now [r] (cache_store s) = Inr c'"
     "memoryCache c' (cfg_cacheKey cfg) = Some (InfiniteCacheEntry [r] now (now + cacheTtl cfg))"
    using setCachedPages_memory[of cfg now "[r]" "cache_store s"] by blast
  have "pages (fetchFirstPage_settle cfg now c (Resolved r) s) = [r]
     \<and> cache_store (fetchFirstPage_settle cfg now c (Resolved r) s) = c'"
    using assms c'(1)
    by (simp add: fetchFirstPage_settle_def cleanupRequest_def Let_def)
  with c'(2) show "pages (fetchFirstPage_settle cfg now c (Resolved r) s) = [r]"
    and "memoryCache (cache_store (fetchFirstPage_settle cfg now c (Resolved r) s))
           (cfg_cacheKey cfg) = Some (InfiniteCacheEntry [r] now (now + cacheTtl cfg))"
    by simp_all
qed

section \<open>The claims on the paginated controller\<close>

text \<open>
  C2. Ordering under races. Let fetch A, with controller \<open>a\<close>, be the request in flight
  of a hook instance, let its response not arrive before a later event \<open>evB\<close> starts a
  fetch B (the step creates a new controller), and let anything happen afterwards. Then
  the settlement of A, whatever its outcome, leaves the whole state as it is: pages,
  flags, error, refs and the cache. Whether A settles before or after any other event, in
  particular B's settlement, the resulting state is the one that event alone produces.
\<close>

theorem C2_superseded_fetch_discarded:
  assumes "controllers_wf s1"
    and "abortControllerRef s1 = Some a"
    and "\<forall>ev \<in> set evs1. \<not> settles a ev"
    and "controllers (step cfg evB (run cfg evs1 s1)) \<noteq> controllers (run cfg evs1 s1)"
    and "s3 = run cfg evs2 (step cfg evB (run cfg evs1 s1))"
    and "settles a evA"
  shows "step cfg evA s3 = s3
         \<and> run cfg [evA, ev] s3 = step cfg ev s3
         \<and> run cfg [ev, evA] s3 = step cfg ev s3"
proof -
  let ?s2 = "run cfg evs1 s1"
  have "abortControllerRef ?s2 = Some a \<or> a \<in> aborted ?s2"
    using assms(2,3) by (intro inflight_run) simp_all
  then have "a \<in> aborted (step cfg evB ?s2)"
    using assms(4) by (rule superseded_by_start)
  then have ab: "a \<in> aborted s3"
    unfolding assms(5) by (rule aborted_run)
  have wf: "controllers_wf s3"
    unfolding assms(5) using assms(1) by (intro wf_run wf_step)
  have noop: "\<And>s. controllers_wf s \<Longrightarrow> a \<in> aborted s \<Longrightarrow> step cfg evA s = s"
    using assms(6) by (cases evA) (simp_all add: settle_aborted)
  have 1: "step cfg evA s3 = s3" using wf ab by (rule noop)
  have 2: "step cfg evA (step cfg ev s3) = step cfg ev s3"
    using wf ab by (intro noop wf_step aborted_step)
  from 1 2 show ?thesis by simp
qed

theorem C2_superseded_fetch_discarded_witness:
  "controllers_wf first_page_pending
   \<and> abortControllerRef first_page_pending = Some 0
   \<and> controllers (step (postsConfig 10 True None) Refetch first_page_pending)
        \<noteq> controllers first_page_pending
   \<and> settles 0 (SettleFirstPage 0 (Resolved (sample_page 1)) 5)
   \<and> step (postsConfig 10 True None) (SettleFirstPage 0 (Resolved (sample_page 1)) 5)
         (step (postsConfig 10 True None) Refetch first_page_pending)
       = step (postsConfig 10 True None) Refetch first_page_pending
   \<and> run (postsConfig 10 True None)
         [SettleFirstPage 0 (Resolved (sample_page 1)) 5,
          SettlePage 1 1 True True (Resolved (sample_page 2)) 6]
         (step (postsConfig 10 True None) Refetch first_page_pending)
       = step (postsConfig 10 True None) (SettlePage 1 1 True True (Resolved (sample_page 2)) 6)
           (step (postsConfig 10 True None) Refetch first_page_pending)
   \<and> run (postsConfig 10 True None)
         [SettlePage 1 1 True True (Resolved (sample_page 2)) 6,
          SettleFirstPage 0 (Resolved (sample_page 1)) 5]
         (step (postsConfig 10 True None) Refetch first_page_pending)
       = step (postsConfig 10 True None) (SettlePage 1 1 True True (Resolved (sample_page 2)) 6)
           (step (postsConfig 10 True None) Refetch first_page_pending)"
proof -
  have h1: "controllers_wf first_page_pending"
    by (simp add: first_page_pending_def controllers_wf_def)
  have h2: "abortControllerRef first_page_pending = Some 0"
    by (simp add: first_page_pending_def)
  have h3: "\<forall>ev \<in> set ([] :: nat event list). \<not> settles 0 ev" by simp
  have h4: "controllers (step (postsConfig 10 True None) Refetch
                (run (postsConfig 10 True None) [] first_page_pending))
        \<noteq> controllers (run (postsConfig 10 True None) [] first_page_pending)"
    by (simp add: refetch_result)
  have h5: "step (postsConfig 10 True None) Refetch first_page_pending
      = run (postsConfig 10 True None) []
          (step (postsConfig 10 True None) Refetch
             (run (postsConfig 10 True None) [] first_page_pending))" by simp
  have h6: "settles 0 (SettleFirstPage 0 (Resolved (sample_page 1)) 5)" by simp
  from C2_superseded_fetch_discarded[OF h1 h2 h3 h4 h5 h6, of "SettlePage 1 1 True True (Resolved (sample_page 2)) 6"]
    h1 h2 h4 h6
  show ?thesis by simp
qed

section \<open>Retry ceiling\<close>









section \<open>Background revalidation in the single-resource controller\<close>

section \<open>Refetch\<close>



section \<open>Pagination accumulation\<close>

lemma fresh_controller:
  assumes "controllers_wf s"
  shows "controllers s \<notin> (case abortControllerRef s of Some c \<Rightarrow> insert c (aborted s) | None \<Rightarrow> aborted s)"
  using assms by (auto simp: controllers_wf_def split: option.splits)

lemma loadMore_settled_appends:
  assumes wf: "controllers_wf s"
    and idle: "\<not> loading s" "\<not> loadingMore s" "hasMoreState s"
    and nonempty: "pages s \<noteq> []"
    and res: "postsFetcher server uid (currentPageRef s + 1, cfg_limit cfg) = Resolved r"
  shows "pages (loadMore_settled cfg server uid now s) = pages s @ [r]"
    and "hasMoreState (loadMore_settled cfg server uid now s) = hasMore (pagination r)"
    and "currentPageRef (loadMore_settled cfg server uid now s) = page (pagination r)"
    and "\<not> loading (loadMore_settled cfg server uid now s)"
    and "\<not> loadingMore (loadMore_settled cfg server uid now s)"
    and "issued (loadMore_settled cfg server uid now s) = issued s @ [(currentPageRef s + 1, cfg_limit cfg)]"
    and "controllers_wf (loadMore_settled cfg server uid now s)"
proof -
  let ?st = "fetchPage_start cfg (currentPageRef s + 1) True False s"
  have lm: "loadMore cfg s = (Some (controllers s), snd ?st)"
    using idle by (simp add: loadMore_def Let_def start_ctl split: prod.splits)
       (metis start_ctl(4) fst_conv)
  have iss: "issued (snd ?st) = issued s @ [(currentPageRef s + 1, cfg_limit cfg)]"
    by (simp add: fetchPage_start_def createRequestController_def Let_def)
  have fresh: "controllers s \<notin> aborted (snd ?st)"
    using fresh_controller[OF wf] by (simp add: start_ctl)
  have pg: "pages (snd ?st) = pages s"
    by (simp add: fetchPage_start_def createRequestController_def Let_def)
  have e: "loadMore_settled cfg server uid now s
     = fetchPage_settle cfg now (controllers s) (currentPageRef s + 1) True False (Resolved r) (snd ?st)"
    using res by (simp add: loadMore_settled_def lm iss)
  obtain c' where c': "setCachedPages cfg now (pages s @ [r]) (cache_store (snd ?st)) = Inr c'"
    using setCachedPages_never_throws by blast
  have c'': "setCachedPages cfg now (pages s @ [r])
       (cache_store (snd ?st\<lparr>retryCountRef := 0\<rparr>)) = Inr c'"
    using c' by simp
  show "pages (loadMore_settled cfg server uid now s) = pages s @ [r]"
    and "hasMoreState (loadMore_settled cfg server uid now s) = hasMore (pagination r)"
    and "currentPageRef (loadMore_settled cfg server uid now s) = page (pagination r)"
    and "\<not> loading (loadMore_settled cfg server uid now s)"
    and "\<not> loadingMore (loadMore_settled cfg server uid now s)"
    and "issued (loadMore_settled cfg server uid now s) = issued s @ [(currentPageRef s + 1, cfg_limit cfg)]"
    unfolding e using fresh pg nonempty c'' iss
    by (simp_all add: fetchPage_settle_def fetchPage_finally_def cleanupRequest_def Let_def)
  have "loadMore_settled cfg server uid now s
     = step cfg (SettlePage (controllers s) (currentPageRef s + 1) True False (Resolved r) now)
         (step cfg LoadMore s)"
    using e lm by simp
  then show "controllers_wf (loadMore_settled cfg server uid now s)"
    using wf by (simp only: wf_step)
qed

lemma init_empty:
  "useInfiniteApi_init (postsConfig lim True uid) now empty_cache
     = \<lparr>pages = [], loading = False, loadingMore = False, error = None, hasMoreState = True,
        abortControllerRef = None, aborted = {}, controllers = 0, currentPageRef = 1,
        retryCountRef = 0, issued = [], cache_store = empty_cache\<rparr>"
  by (simp add: useInfiniteApi_init_def getInitialData_def postsConfig_def get_def get_try_def
      getItem_def empty_cache_def empty_storage_def)

lemma mount_settled_first_page:
  assumes res: "postsFetcher server uid (1, lim) = Resolved r"
  shows "\<exists>c'. mount_settled (postsConfig lim True uid) server uid now
            (empty_cache :: ('d, json_post) cache)
     = \<lparr>pages = [r], loading = False, loadingMore = False, error = None,
        hasMoreState = hasMore (pagination r),
        abortControllerRef = None, aborted = {}, controllers = Suc 0,
        currentPageRef = page (pagination r),
        retryCountRef = 0, issued = [(1, lim)], cache_store = c'\<rparr>"
proof -
  let ?cfg = "postsConfig lim True uid"
  let ?s0 = "\<lparr>pages = [], loading = False, loadingMore = False, error = None, hasMoreState = True,
        abortControllerRef = None, aborted = {}, controllers = 0, currentPageRef = 1,
        retryCountRef = 0, issued = [], cache_store = empty_cache\<rparr> :: ('d, json_post) infinite_state"
  have eff: "initialLoadEffect ?cfg ?s0
     = (Some 0, ?s0\<lparr>abortControllerRef := Some 0, controllers := Suc 0, loading := True,
                     issued := [(1, lim)]\<rparr>)"
    by (simp add: initialLoadEffect_def fetchFirstPage_start_def
        createRequestController_def maxRetries_def postsConfig_def)
  obtain c' where c': "setCachedPages ?cfg now [r] (empty_cache :: ('d, json_post) cache) = Inr c'"
    using setCachedPages_never_throws by blast
  have "mount_settled ?cfg server uid now (empty_cache :: ('d, json_post) cache)
     = \<lparr>pages = [r], loading = False, loadingMore = False, error = None,
        hasMoreState = hasMore (pagination r),
        abortControllerRef = None, aborted = {}, controllers = Suc 0,
        currentPageRef = page (pagination r),
        retryCountRef = 0, issued = [(1, lim)], cache_store = c'\<rparr>"
    using res c' unfolding mount_settled_def eff init_empty
    by (simp add: fetchFirstPage_settle_def cleanupRequest_def Let_def)
  then show ?thesis by blast
qed

lemma ceil_div_25_10: "ceil_div 25 10 = 3"
  by (simp add: ceil_div_def)

lemma paging_server_page:
  assumes "length all = 25" and "\<forall>p \<in> set all. \<not> invalid_post p" and "p \<in> {1, 2, 3}"
  shows "postsFetcher (paging_server all) None (p, 10)
     = Resolved \<lparr>data = take 10 (drop (nat ((p - 1) * 10)) all),
                 pagination = \<lparr>page = p, limit = 10, total = 25, totalPages = 3,
                                hasMore = (p < 3),
                                nextPage = (if p < 3 then Some (p + 1) else None)\<rparr>\<rparr>"
proof -
  have "\<forall>q \<in> set (take 10 (drop (nat ((p - 1) * 10)) all)). \<not> invalid_post q"
    using assms(2) by (meson in_set_dropD in_set_takeD)
  then have v: "validate_posts 0 (take 10 (drop (nat ((p - 1) * 10)) all)) = Inr ()"
    by (rule validate_posts_all_valid)
  show ?thesis
    using assms(1) v
    by (simp add: postsFetcher_def fetchPaginatedPosts_def fetchPaginatedPosts_try_def
        paging_server_def build_query_def ceil_div_25_10 Let_def)
qed


lemma foldl_append_concat:
  "foldl (\<lambda>acc pg. acc @ data pg) a ps = a @ concat (map data ps)"
  by (induction ps arbitrary: a) simp_all

lemma flatData_concat: "flatData s = concat (map data (pages s))"
  by (simp add: flatData_def foldl_append_concat)

lemma three_slices:
  assumes "length (all :: 'x list) = 25"
  shows "take 10 all @ take 10 (drop 10 all) @ take 10 (drop 20 all) = all"
proof -
  have "take 10 (drop 20 all) = drop 20 all" using assms by simp
  moreover have "take 10 (drop 10 all) @ drop 20 all = drop 10 all"
    using append_take_drop_id[of 10 "drop 10 all"] by simp
  ultimately show ?thesis by simp
qed

text \<open>
  C3. Pagination accumulation. Over an empty cache, with page size 10 and a server holding
  25 well-formed posts, mounting the hook (the initial load) and two \<open>loadMore()\<close> calls,
  each settled by the server's answer, give three pages: page 1 with 10 items and
  \<open>hasMore\<close>, page 2 with 10 items and \<open>hasMore\<close>, page 3 with 5 items and no more. The
  flattened list is the concatenation of the pages' items in order, has 25 elements and is
  the server's list. Three requests were made, and a further \<open>loadMore()\<close> returns without
  a request and leaves the state unchanged.
\<close>

theorem C3_pagination_accumulation:
  assumes "length all = 25" and "\<forall>p \<in> set all. \<not> invalid_post p"
  shows "let s3 = loadMore_settled (postsConfig 10 True None) (paging_server all) None t3
                   (loadMore_settled (postsConfig 10 True None) (paging_server all) None t2
                     (mount_settled (postsConfig 10 True None) (paging_server all) None t1
                        (empty_cache :: ('d, json_post) cache)))
         in map (\<lambda>pg. (page (pagination pg), length (data pg), hasMore (pagination pg))) (pages s3)
              = [(1, 10, True), (2, 10, True), (3, 5, False)]
            \<and> flatData s3 = concat (map data (pages s3))
            \<and> length (flatData s3) = 25
            \<and> flatData s3 = all
            \<and> issued s3 = [(1, 10), (2, 10), (3, 10)]
            \<and> loadMore (postsConfig 10 True None) s3 = (None, s3)"
proof -
  let ?cfg = "postsConfig 10 True None"
  let ?srv = "paging_server all"
  let ?r = "\<lambda>p::int. \<lparr>data = take 10 (drop (nat ((p - 1) * 10)) all),
                 pagination = \<lparr>page = p, limit = 10, total = 25, totalPages = 3,
                                hasMore = (p < 3),
                                nextPage = (if p < 3 then Some (p + 1) else None)\<rparr>\<rparr>"
  have f: "\<And>p. p \<in> {1, 2, 3} \<Longrightarrow> postsFetcher ?srv None (p, 10) = Resolved (?r p)"
    using assms by (rule paging_server_page)
  have lim: "cfg_limit ?cfg = 10" by (simp add: postsConfig_def)
  let ?s1 = "mount_settled ?cfg ?srv None t1 (empty_cache :: ('d, json_post) cache)"
  obtain c1 where s1: "?s1 = \<lparr>pages = [?r 1], loading = False, loadingMore = False, error = None,
        hasMoreState = hasMore (pagination (?r 1)),
        abortControllerRef = None, aborted = {}, controllers = Suc 0,
        currentPageRef = page (pagination (?r 1)),
        retryCountRef = 0, issued = [(1, 10)], cache_store = c1\<rparr>"
    using mount_settled_first_page[OF f[of 1], of t1] by auto
  have p1: "pages ?s1 = [?r 1]" "\<not> loading ?s1" "\<not> loadingMore ?s1" "hasMoreState ?s1"
    "currentPageRef ?s1 = 1" "issued ?s1 = [(1, 10)]" "controllers_wf ?s1"
    unfolding s1 by (simp_all add: controllers_wf_def)
  let ?s2 = "loadMore_settled ?cfg ?srv None t2 ?s1"
  have f2: "postsFetcher ?srv None (currentPageRef ?s1 + 1, cfg_limit ?cfg) = Resolved (?r 2)"
    using f[of 2] by (simp add: p1(5) lim)
  have ne1: "pages ?s1 \<noteq> []" by (simp add: p1(1))
  note a2 = loadMore_settled_appends[OF p1(7) p1(2) p1(3) p1(4) ne1 f2, of t2]
  have p2: "pages ?s2 = [?r 1, ?r 2]" "\<not> loading ?s2" "\<not> loadingMore ?s2" "hasMoreState ?s2"
    "currentPageRef ?s2 = 2" "issued ?s2 = [(1, 10), (2, 10)]" "controllers_wf ?s2"
    using a2 by (simp_all add: p1 lim)
  let ?s3 = "loadMore_settled ?cfg ?srv None t3 ?s2"
  have f3: "postsFetcher ?srv None (currentPageRef ?s2 + 1, cfg_limit ?cfg) = Resolved (?r 3)"
    using f[of 3] by (simp add: p2(5) lim)
  have ne2: "pages ?s2 \<noteq> []" by (simp add: p2(1))
  note a3 = loadMore_settled_appends[OF p2(7) p2(2) p2(3) p2(4) ne2 f3, of t3]
  have p3: "pages ?s3 = [?r 1, ?r 2, ?r 3]" "\<not> hasMoreState ?s3"
    "issued ?s3 = [(1, 10), (2, 10), (3, 10)]"
    using a3 by (simp_all add: p2 lim)
  have m: "map (\<lambda>pg. (page (pagination pg), length (data pg), hasMore (pagination pg))) (pages ?s3)
              = [(1, 10, True), (2, 10, True), (3, 5, False)]"
    using assms(1) by (simp add: p3(1))
  have fl: "flatData ?s3 = all"
    using three_slices[OF assms(1)] by (simp add: flatData_concat p3(1))
  have noop: "loadMore ?cfg ?s3 = (None, ?s3)"
    using p3(2) by (simp add: loadMore_def)
  from m fl noop p3(3) assms(1) show ?thesis
    by (simp add: Let_def flatData_concat[symmetric])
qed

theorem C3_pagination_accumulation_witness:
  "length sample_posts = 25
   \<and> (let s3 = loadMore_settled (postsConfig 10 True None) (paging_server sample_posts) None 3
                   (loadMore_settled (postsConfig 10 True None) (paging_server sample_posts) None 2
                     (mount_settled (postsConfig 10 True None) (paging_server sample_posts) None 1
                        (empty_cache :: (nat, json_post) cache)))
         in map (\<lambda>pg. (page (pagination pg), length (data pg), hasMore (pagination pg))) (pages s3)
              = [(1, 10, True), (2, 10, True), (3, 5, False)]
            \<and> flatData s3 = concat (map data (pages s3))
            \<and> length (flatData s3) = 25
            \<and> flatData s3 = sample_posts
            \<and> issued s3 = [(1, 10), (2, 10), (3, 10)]
            \<and> loadMore (postsConfig 10 True None) s3 = (None, s3))"
proof -
  have h1: "length sample_posts = 25" by (simp add: sample_posts_def)
  have h2: "\<forall>p \<in> set sample_posts. \<not> invalid_post p"
    by (auto simp: sample_posts_def invalid_post_def falsy_number_def falsy_string_def)
  from C3_pagination_accumulation[OF h1 h2, of 3 2 1] h1 show ?thesis by simp
qed

section \<open>Background revalidation in the single-resource controller\<close>

lemma api_controllers_wf_init: "api_controllers_wf (useApi_init cfg now c m)"
  by (simp add: useApi_init_def api_controllers_wf_def split: prod.splits)

lemma fetchData_start_background:
  "fetchData_start False s =
     (api_controllers s,
      s\<lparr>api_aborted := (case api_abortControllerRef s of
                           Some c \<Rightarrow> insert c (api_aborted s)
                         | None \<Rightarrow> api_aborted s),
        api_abortControllerRef := Some (api_controllers s),
        api_controllers := Suc (api_controllers s),
        api_issued := api_issued s + 1\<rparr>)"
  by (cases "api_abortControllerRef s")
     (simp_all add: fetchData_start_def api_createRequestController_def)

text \<open>With a falsy payload the effect takes the foreground branch, as with no data: it
  fetches with the loading flag set.\<close>

lemma useApi_effect_falsy_payload:
  assumes "api_enabled cfg" and "\<not> data_truthy truthy (api_data s)"
  shows "\<exists>c s1. useApi_effect truthy cfg now s = Inr (Some c, s1) \<and> api_loading s1
           \<and> api_error s1 = None"
  using assms
  by (simp add: useApi_effect_def fetchData_start_def api_createRequestController_def
      split: prod.splits)

text \<open>
  C9 as stated fails: the \<open>catch\<close> block of \<open>fetchData\<close> calls \<open>setError\<close> whether or not the
  fetch shows the loading flag. With a stale, unexpired payload in the cache and no error
  shown, the effect starts a background fetch (controller 0); its failure puts the message
  into the error state the caller sees.
\<close>

theorem C9_background_failure_sets_error:
  "api_error stale_sample_state = None
   \<and> api_error
       (fetchData_settle sample_api_config 40001 0 False (Rejected (Error ''Network down''))
          (snd (projr (useApi_effect truthy_number sample_api_config 40000 stale_sample_state))))
     = Some ''Network down''
   \<and> fst (projr (useApi_effect truthy_number sample_api_config 40000 stale_sample_state)) = Some 0"
  by (simp add: stale_sample_state_def sample_api_config_def useApi_effect_def isCacheStale_def
      get_def get_try_def getItem_def unavailable_storage_def fetchData_start_background
      fetchData_settle_def fetchData_catch_def api_cleanupRequest_def errorMessage_def Let_def
      data_truthy_def truthy_number_def)

text \<open>
  C9, amended. With the hook enabled, a truthy payload shown (the effect tests
  \<open>if (data)\<close>), and an unexpired cache entry older than the stale threshold, the effect
  issues one fetch without touching the loading flag, the payload or the error. If that
  fetch fails, the payload is kept and the loading flag is still as it was, and the error
  state becomes the message of the failure.
\<close>

theorem C9_background_failure_keeps_payload:
  assumes "api_enabled cfg" and "api_data s = Some d" and "truthy d" and "api_controllers_wf s"
    and "(if api_persistentCache cfg then get now (api_cacheKey cfg) (api_cache_store s)
          else Inr (api_memoryCache s (api_cacheKey cfg), api_cache_store s)) = Inr (Some e, c')"
    and "\<not> isInfiniteEntry e" and "now \<le> expiresAt e" and "now - timestamp e > 30 * 1000"
  shows "\<exists>c s1. useApi_effect truthy cfg now s = Inr (Some c, s1)
           \<and> api_issued s1 = api_issued s + 1
           \<and> api_loading s1 = api_loading s \<and> api_data s1 = Some d \<and> api_error s1 = api_error s
           \<and> api_data (fetchData_settle cfg now' c False (Rejected t) s1) = Some d
           \<and> api_loading (fetchData_settle cfg now' c False (Rejected t) s1) = api_loading s
           \<and> api_error (fetchData_settle cfg now' c False (Rejected t) s1) = Some (errorMessage t)"
proof -
  have st: "isCacheStale (api_cacheKey cfg) (api_persistentCache cfg) now (api_cache_store s)
              (api_memoryCache s) = Inr (True, c')"
    using assms(5,6,8) by (simp add: isCacheStale_def)
  let ?s0 = "s\<lparr>api_cache_store := c'\<rparr>"
  let ?s1 = "snd (fetchData_start False ?s0)"
  have eff: "useApi_effect truthy cfg now s = Inr (Some (api_controllers s), ?s1)"
    using assms(1,2,3) st
    by (cases "api_abortControllerRef s")
       (simp_all add: useApi_effect_def data_truthy_def fetchData_start_background Let_def)
  have fresh: "api_controllers s \<notin> api_aborted ?s1"
    using assms(4)
    by (auto simp: fetchData_start_background api_controllers_wf_def split: option.splits)
  have "api_data (fetchData_settle cfg now' (api_controllers s) False (Rejected t) ?s1) = Some d
      \<and> api_loading (fetchData_settle cfg now' (api_controllers s) False (Rejected t) ?s1) = api_loading s
      \<and> api_error (fetchData_settle cfg now' (api_controllers s) False (Rejected t) ?s1) = Some (errorMessage t)"
    using fresh assms(2)
    by (simp add: fetchData_settle_def fetchData_catch_def api_cleanupRequest_def Let_def
        fetchData_start_background)
  moreover have "api_issued ?s1 = api_issued s + 1 \<and> api_loading ?s1 = api_loading s
      \<and> api_data ?s1 = Some d \<and> api_error ?s1 = api_error s"
    using assms(2) by (simp add: fetchData_start_background)
  ultimately show ?thesis using eff by blast
qed

theorem C9_background_failure_keeps_payload_witness:
  "api_enabled sample_api_config \<and> api_data stale_sample_state = Some 7
   \<and> truthy_number 7 \<and> api_controllers_wf stale_sample_state
   \<and> (\<exists>c s1. useApi_effect truthy_number sample_api_config 40000 stale_sample_state = Inr (Some c, s1)
        \<and> api_issued s1 = 1 \<and> api_loading s1 = False \<and> api_data s1 = Some 7
        \<and> api_data (fetchData_settle sample_api_config 40001 c False
                      (Rejected (Error ''Network down'')) s1) = Some 7
        \<and> api_loading (fetchData_settle sample_api_config 40001 c False
                      (Rejected (Error ''Network down'')) s1) = False
        \<and> api_error (fetchData_settle sample_api_config 40001 c False
                      (Rejected (Error ''Network down'')) s1) = Some ''Network down'')"
proof -
  have g: "(if api_persistentCache sample_api_config
          then get 40000 (api_cacheKey sample_api_config) (api_cache_store stale_sample_state)
          else Inr (api_memoryCache stale_sample_state (api_cacheKey sample_api_config),
                    api_cache_store stale_sample_state))
        = Inr (Some (CacheEntry 7 0 300000), api_cache_store stale_sample_state)"
    by (simp add: stale_sample_state_def sample_api_config_def get_def get_try_def getItem_def
        unavailable_storage_def)
  have h: "api_enabled sample_api_config" "api_data stale_sample_state = Some 7"
    "truthy_number 7" "api_controllers_wf stale_sample_state"
    by (simp_all add: stale_sample_state_def sample_api_config_def api_controllers_wf_def
        truthy_number_def)
  have v: "api_issued stale_sample_state = 0" "api_loading stale_sample_state = False"
    by (simp_all add: stale_sample_state_def)
  from C9_background_failure_keeps_payload
         [where truthy = truthy_number and now' = 40001 and t = "Error ''Network down''",
          OF h g] h
  show ?thesis
    by (auto simp: errorMessage_def v)
qed

end
